theory Spec2Isabelle
  imports Complex_Main
begin

section \<open>The edge poll service (src/edge/poll.go)\<close>

text \<open>
  A shallow embedding of \<^verbatim>\<open>PollService\<close>: its struct, the collaborators it
  holds as Go interface values, one poll iteration, tunnel creation, the activity
  monitor, and the start/stop/restart life cycle with the goroutines they launch.
\<close>

subsection \<open>Values of the Go runtime\<close>

text \<open>A Go \<^verbatim>\<open>error\<close> value; \<^verbatim>\<open>nil\<close> is \<open>None\<close> of \<open>error option\<close>.\<close>

datatype error = Error string

text \<open>
  \<^verbatim>\<open>time.Duration\<close> is an int64 count of nanoseconds; \<^verbatim>\<open>time.Time\<close> is read as
  the nanoseconds since the zero instant, so \<^verbatim>\<open>IsZero\<close> is equality with 0.
  A finite \<^verbatim>\<open>float64\<close> is the rational it denotes.
\<close>

type_synonym Duration = int
type_synonym Time = int
type_synonym float64 = rat

definition wrap64 :: "int \<Rightarrow> int" where
  "wrap64 n = (n + 2 ^ 63) mod 2 ^ 64 - 2 ^ 63"

definition Second :: Duration where
  "Second = 1000000000"

definition tunnelActivityCheckInterval :: Duration where
  "tunnelActivityCheckInterval = wrap64 (30 * Second)"

text \<open>
  The conversion \<^verbatim>\<open>time.Duration(f)\<close> of a float64: the fraction is discarded
  (truncation towards zero). Outside the int64 range Go leaves the result to the
  implementation; the value taken here is the one amd64 produces.
\<close>

definition Duration_of_float64 :: "float64 \<Rightarrow> Duration" where
  "Duration_of_float64 f =
     (let t = (if 0 \<le> f then \<lfloor>f\<rfloor> else \<lceil>f\<rceil>)
      in if - (2 ^ 63) \<le> t \<and> t < 2 ^ 63 then t else - (2 ^ 63))"

text \<open>\<^verbatim>\<open>time.Since(t)\<close>: the difference to the clock reading, saturated to int64.\<close>

definition Since :: "Time \<Rightarrow> Time \<Rightarrow> Duration" where
  "Since now t = max (- (2 ^ 63)) (min (2 ^ 63 - 1) (now - t))"

definition IsZero :: "Time \<Rightarrow> bool" where
  "IsZero t = (t = 0)"

text \<open>\<^verbatim>\<open>strconv.Itoa\<close>: the decimal text of an int.\<close>

fun utoa :: "nat \<Rightarrow> string" where
  "utoa n = (if n < 10 then [char_of (48 + n)]
             else utoa (n div 10) @ [char_of (48 + n mod 10)])"

declare utoa.simps [simp del]

definition Itoa :: "int \<Rightarrow> string" where
  "Itoa i = (if i < 0 then CHR ''-'' # utoa (nat (- i)) else utoa (nat i))"

subsection \<open>Rounding to float64\<close>

text \<open>
  \<^verbatim>\<open>Duration.Seconds\<close> computes \<^verbatim>\<open>float64(d / Second) + float64(d % Second) / 1e9\<close>
  in float64 arithmetic: each operation yields the exact result rounded to the nearest
  float64, ties to the even mantissa. \<open>bitlen n\<close> is the number of binary digits of
  a positive integer, \<open>rawexp x\<close> the binary exponent of \<open>x\<close> (the \<open>e\<close> with
  \<open>2 ^ e \<le> \<bar>x\<bar> < 2 ^ (e + 1)\<close>), \<open>expo x\<close> that exponent kept from falling
  below the one of the subnormals, \<open>rne\<close> rounds a rational to the nearest integer,
  ties to even, and \<open>round64\<close> rounds to the 53-bit grid of the binade. The values
  rounded here stay below \<open>2 ^ 34\<close>, far from overflow.
\<close>

function bitlen :: "int \<Rightarrow> nat" where
  "bitlen n = (if n \<le> 0 then 0 else Suc (bitlen (n div 2)))"
  by pat_completeness auto
termination
  by (relation "measure nat") auto

declare bitlen.simps [simp del]

definition rawexp :: "rat \<Rightarrow> int" where
  "rawexp x = (if 1 \<le> \<bar>x\<bar> then int (bitlen \<lfloor>\<bar>x\<bar>\<rfloor>) - 1
               else - int (bitlen (\<lceil>1 / \<bar>x\<bar>\<rceil> - 1)))"

definition expo :: "rat \<Rightarrow> int" where
  "expo x = max (- 1022) (rawexp x)"

definition pow2 :: "int \<Rightarrow> rat" where
  "pow2 e = (if 0 \<le> e then 2 ^ nat e else 1 / 2 ^ nat (- e))"

definition rne :: "rat \<Rightarrow> int" where
  "rne m = (let f = \<lfloor>m\<rfloor>; r = m - of_int f
            in if r < 1 / 2 then f
               else if 1 / 2 < r then f + 1
               else if even f then f else f + 1)"

definition round64 :: "rat \<Rightarrow> float64" where
  "round64 x = (let q = pow2 (expo x - 52) in of_int (rne (x / q)) * q)"

text \<open>Go's integer \<^verbatim>\<open>/\<close> and \<^verbatim>\<open>%\<close> truncate towards zero.\<close>

definition quot :: "int \<Rightarrow> int \<Rightarrow> int" where
  "quot a b = sgn a * sgn b * (\<bar>a\<bar> div \<bar>b\<bar>)"

definition rem :: "int \<Rightarrow> int \<Rightarrow> int" where
  "rem a b = sgn a * (\<bar>a\<bar> mod \<bar>b\<bar>)"

definition Seconds :: "Duration \<Rightarrow> float64" where
  "Seconds d =
     (let sec = quot d Second; nsec = rem d Second
      in round64 (of_int sec + round64 (of_int nsec / 1000000000)))"

subsection \<open>Data received and built\<close>

record Schedule =
  ScheduleID :: int
  CollectLogs :: bool

record StackStatus =
  StackID :: int
  Version :: int

text \<open>
  The status response. \<^verbatim>\<open>Stacks\<close> is a slice that may be \<^verbatim>\<open>nil\<close>
  (\<open>None\<close>), which the code tells apart from an empty one.
\<close>

record PollStatusResponse =
  Status :: string
  Port :: int
  Schedules :: "Schedule list"
  CheckinInterval :: float64
  Credentials :: string
  Stacks :: "StackStatus list option"

record TunnelConfig =
  ServerAddr :: string
  ServerFingerpint :: string
  TunnelCredentials :: string
  RemotePort :: string
  LocalAddr :: string

subsection \<open>Collaborators\<close>

text \<open>
  The collaborators are Go interface values and pointers to other packages' types.
  Each is a record of its methods, acting on a state \<open>'w\<close> of everything outside
  the service. \<^verbatim>\<open>base64.RawStdEncoding.DecodeString\<close> and
  \<^verbatim>\<open>libcrypto.Decrypt\<close> are pure library functions, taken as parameters.
  \<open>ScheduleJobs\<close> is the scheduler's method \<^verbatim>\<open>Schedule\<close>, and \<open>IsTunnelOpen\<close>
  a query that leaves the outside state alone.
\<close>

record 'w PortainerClient =
  GetEnvironmentStatus :: "'w \<Rightarrow> (error + PollStatusResponse) \<times> 'w"
  SetTimeout :: "Duration \<Rightarrow> 'w \<Rightarrow> 'w"

record 'w ReverseTunnelClient =
  IsTunnelOpen :: "'w \<Rightarrow> bool"
  CreateTunnel :: "TunnelConfig \<Rightarrow> 'w \<Rightarrow> error option \<times> 'w"
  CloseTunnel :: "'w \<Rightarrow> error option \<times> 'w"

record 'w Scheduler =
  ScheduleJobs :: "Schedule list \<Rightarrow> 'w \<Rightarrow> error option \<times> 'w"

record 'w StackManager =
  UpdateStacksStatus :: "(int \<rightharpoonup> int) \<Rightarrow> 'w \<Rightarrow> error option \<times> 'w"

record 'w LogsManager =
  HandleReceivedLogsRequests :: "int list \<Rightarrow> 'w \<Rightarrow> 'w"

record libs =
  DecodeString :: "string \<Rightarrow> error + string"
  Decrypt :: "string \<Rightarrow> string \<Rightarrow> error + string"

subsection \<open>The service and the system it runs in\<close>

text \<open>A channel is its address; \<^verbatim>\<open>nil\<close> is \<open>None\<close>.\<close>

type_synonym chan = nat

record 'w PollService =
  apiServerAddr :: string
  pollIntervalInSeconds :: float64
  inactivityTimeout :: Duration
  edgeID :: string
  portainerClient :: "'w PortainerClient"
  tunnelClient :: "'w ReverseTunnelClient option"
  scheduleManager :: "'w Scheduler"
  lastActivity :: Time
  refreshSignal :: "chan option"
  edgeStackManager :: "'w StackManager"
  portainerURL :: string
  endpointID :: string
  tunnelServerAddr :: string
  tunnelServerFingerprint :: string
  logsManager :: "'w LogsManager"

text \<open>
  What the service does to the outside is recorded, in order, as events: every method
  call on a collaborator, every log line (its level and message text, an error when
  one is printed) and every \<^verbatim>\<open>go\<close> statement that launches the restart.
\<close>

datatype level = DEBUG | INFO | ERROR

datatype event =
    CallGetEnvironmentStatus
  | CallSetTimeout Duration
  | CallIsTunnelOpen
  | CallCreateTunnel TunnelConfig
  | CallCloseTunnel
  | CallSchedule "Schedule list"
  | CallHandleReceivedLogsRequests "int list"
  | CallUpdateStacksStatus "int \<rightharpoonup> int"
  | GoRestartStatusPollLoop
  | Log level string "error option"

text \<open>
  A goroutine of the service. A loop is about to enter its \<^verbatim>\<open>select\<close>
  (\<open>AtSelect\<close>), blocked in it on its ticker and on the channel it read from the
  struct when it entered (\<open>Waiting\<close>), or has returned (\<open>Exited\<close>).
\<close>

datatype pc = AtSelect | Waiting "chan option" | Exited

datatype goroutine =
    PollLoop Duration pc
  | MonitorLoop chan pc
  | RestartCall bool

text \<open>
  The system: the service struct, the outside state, the events so far, the channels
  (those closed, and the address the next \<^verbatim>\<open>make\<close> returns) and the goroutines
  launched so far.
\<close>

record 'w system = "'w PollService" +
  world :: 'w
  trace :: "event list"
  closedChans :: "chan set"
  nextChan :: chan
  goroutines :: "goroutine list"

datatype 'a result = Done 'a | Panic string

definition emit :: "event \<Rightarrow> 'w system \<Rightarrow> 'w system" where
  "emit e s = s\<lparr>trace := trace s @ [e]\<rparr>"

definition makeChan :: "'w system \<Rightarrow> chan \<times> 'w system" where
  "makeChan s = (nextChan s, s\<lparr>nextChan := Suc (nextChan s)\<rparr>)"

subsection \<open>resetActivityTimer and createTunnel\<close>

definition resetActivityTimer :: "Time \<Rightarrow> 'w system \<Rightarrow> 'w system" where
  "resetActivityTimer now s =
     (case tunnelClient s of
        None \<Rightarrow> s
      | Some tc \<Rightarrow>
          let s1 = emit CallIsTunnelOpen s
          in if IsTunnelOpen tc (world s1) then s1\<lparr>lastActivity := now\<rparr> else s1)"

text \<open>Lines 275 to 281: the configuration handed to the tunnel client.\<close>

definition newTunnelConfig :: "'w system \<Rightarrow> string \<Rightarrow> int \<Rightarrow> TunnelConfig" where
  "newTunnelConfig s credentials remotePort =
     \<lparr> ServerAddr = tunnelServerAddr s,
       ServerFingerpint = tunnelServerFingerprint s,
       TunnelCredentials = credentials,
       RemotePort = Itoa remotePort,
       LocalAddr = apiServerAddr s \<rparr>"

definition createTunnel ::
  "libs \<Rightarrow> Time \<Rightarrow> string \<Rightarrow> int \<Rightarrow> 'w system \<Rightarrow> error option \<times> 'w system" where
  "createTunnel L now encodedCredentials remotePort s =
     (case tunnelClient s of
        None \<Rightarrow> (None, s)
      | Some tc \<Rightarrow>
          (case DecodeString L encodedCredentials of
             Inl err \<Rightarrow> (Some err, s)
           | Inr decodedCredentials \<Rightarrow>
               (case Decrypt L decodedCredentials (edgeID s) of
                  Inl err \<Rightarrow> (Some err, s)
                | Inr credentials \<Rightarrow>
                    let tunnelConfig = newTunnelConfig s credentials remotePort;
                        r = CreateTunnel tc tunnelConfig (world s);
                        s1 = (emit (CallCreateTunnel tunnelConfig) s)\<lparr>world := snd r\<rparr>
                    in (case fst r of
                          Some err \<Rightarrow> (Some err, s1)
                        | None \<Rightarrow> (None, resetActivityTimer now s1)))))"

subsection \<open>One poll iteration\<close>

text \<open>Lines 203 to 210: an IDLE status closes an open tunnel.\<close>

definition pollTunnelIdle ::
  "PollStatusResponse \<Rightarrow> 'w ReverseTunnelClient \<Rightarrow> 'w system \<Rightarrow> 'w system" where
  "pollTunnelIdle responseData tc s =
     (if Status responseData = ''IDLE'' then
        let sa = emit CallIsTunnelOpen s
        in if IsTunnelOpen tc (world sa) then
             let sb = emit (Log DEBUG ''Idle status detected, shutting down tunnel'' None) sa;
                 r = CloseTunnel tc (world sb);
                 sc = (emit CallCloseTunnel sb)\<lparr>world := snd r\<rparr>
             in (case fst r of
                   Some err \<Rightarrow> emit (Log ERROR ''Unable to shutdown tunnel'' (Some err)) sc
                 | None \<Rightarrow> sc)
           else sa
      else s)"

text \<open>Lines 212 to 220: a REQUIRED status creates the tunnel when it is closed.\<close>

definition pollTunnelRequired ::
  "libs \<Rightarrow> Time \<Rightarrow> PollStatusResponse \<Rightarrow> 'w ReverseTunnelClient \<Rightarrow> 'w system
     \<Rightarrow> error option \<times> 'w system" where
  "pollTunnelRequired L now responseData tc s =
     (if Status responseData = ''REQUIRED'' then
        let s2 = emit CallIsTunnelOpen s
        in if \<not> IsTunnelOpen tc (world s2) then
             let s3 = emit (Log DEBUG ''Required status detected, creating reverse tunnel'' None) s2;
                 c = createTunnel L now (Credentials responseData) (Port responseData) s3
             in (case fst c of
                   Some err \<Rightarrow>
                     (Some err, emit (Log ERROR ''Unable to create tunnel'' (Some err)) (snd c))
                 | None \<Rightarrow> (None, snd c))
           else (None, s2)
      else (None, s))"

text \<open>Lines 202 to 221: the tunnel is reconciled with the status.\<close>

definition pollTunnel ::
  "libs \<Rightarrow> Time \<Rightarrow> PollStatusResponse \<Rightarrow> 'w system \<Rightarrow> error option \<times> 'w system" where
  "pollTunnel L now responseData s =
     (case tunnelClient s of
        None \<Rightarrow> (None, s)
      | Some tc \<Rightarrow> pollTunnelRequired L now responseData tc (pollTunnelIdle responseData tc s))"

text \<open>Lines 228 to 233: the ids of the schedules that ask for their logs.\<close>

definition logsToCollect :: "Schedule list \<Rightarrow> int list" where
  "logsToCollect schedules = map ScheduleID (filter CollectLogs schedules)"

text \<open>Lines 245 to 248: the map from stack id to version, a later entry overwriting.\<close>

definition stacksMap :: "StackStatus list \<Rightarrow> (int \<rightharpoonup> int)" where
  "stacksMap stacks = foldl (\<lambda>m stack. m(StackID stack \<mapsto> Version stack)) Map.empty stacks"

text \<open>Lines 223 to 235: schedules and log requests.\<close>

definition pollSchedules :: "PollStatusResponse \<Rightarrow> 'w system \<Rightarrow> 'w system" where
  "pollSchedules responseData s =
     (let r = ScheduleJobs (scheduleManager s) (Schedules responseData) (world s);
          s1 = (emit (CallSchedule (Schedules responseData)) s)\<lparr>world := snd r\<rparr>;
          s2 = (case fst r of
                  Some err \<Rightarrow>
                    emit (Log ERROR ''an error occurred during schedule management'' (Some err)) s1
                | None \<Rightarrow> s1);
          ids = logsToCollect (Schedules responseData)
      in (emit (CallHandleReceivedLogsRequests ids) s2)
           \<lparr>world := HandleReceivedLogsRequests (logsManager s2) ids (world s2)\<rparr>)"

text \<open>Lines 237 to 242: the cadence follows the response.\<close>

definition pollCadence :: "PollStatusResponse \<Rightarrow> 'w system \<Rightarrow> 'w system" where
  "pollCadence responseData s =
     (if CheckinInterval responseData > 0
         \<and> CheckinInterval responseData \<noteq> pollIntervalInSeconds s then
        let s1 = emit (Log DEBUG ''updating poll interval'' None) s;
            s2 = s1\<lparr>pollIntervalInSeconds := CheckinInterval responseData\<rparr>;
            d = wrap64 (Duration_of_float64 (CheckinInterval responseData) * Second);
            s3 = (emit (CallSetTimeout d) s2)
                   \<lparr>world := SetTimeout (portainerClient s2) d (world s2)\<rparr>
        in (emit GoRestartStatusPollLoop s3)
             \<lparr>goroutines := goroutines s3 @ [RestartCall False]\<rparr>
      else s)"

text \<open>Lines 244 to 257: the stacks, when the response carries any.\<close>

definition pollStacks :: "PollStatusResponse \<Rightarrow> 'w system \<Rightarrow> error option \<times> 'w system" where
  "pollStacks responseData s =
     (case Stacks responseData of
        None \<Rightarrow> (None, s)
      | Some sts \<Rightarrow>
          let stacks = stacksMap sts;
              r = UpdateStacksStatus (edgeStackManager s) stacks (world s);
              s1 = (emit (CallUpdateStacksStatus stacks) s)\<lparr>world := snd r\<rparr>
          in (case fst r of
                Some err \<Rightarrow>
                  (Some err, emit (Log ERROR ''an error occurred during stack management'' (Some err)) s1)
              | None \<Rightarrow> (None, s1)))"

definition poll :: "libs \<Rightarrow> Time \<Rightarrow> 'w system \<Rightarrow> error option \<times> 'w system" where
  "poll L now s =
     (let r = GetEnvironmentStatus (portainerClient s) (world s);
          s0 = (emit CallGetEnvironmentStatus s)\<lparr>world := snd r\<rparr>
      in (case fst r of
            Inl err \<Rightarrow> (Some err, s0)
          | Inr responseData \<Rightarrow>
              let s1 = emit (Log DEBUG ''status'' None) s0;
                  t = pollTunnel L now responseData s1
              in (case fst t of
                    Some err \<Rightarrow> (Some err, snd t)
                  | None \<Rightarrow>
                      pollStacks responseData
                        (pollCadence responseData (pollSchedules responseData (snd t))))))"

subsection \<open>The activity monitor\<close>

text \<open>Lines 167 to 182: what the monitoring loop does on one tick of its ticker.\<close>

definition monitorTick :: "Time \<Rightarrow> 'w system \<Rightarrow> 'w system" where
  "monitorTick now s =
     (if IsZero (lastActivity s) then s
      else
        let elapsed = Since now (lastActivity s);
            s1 = emit (Log DEBUG ''tunnel activity monitoring'' None) s
        in (case tunnelClient s1 of
              None \<Rightarrow> s1
            | Some tc \<Rightarrow>
                let s2 = emit CallIsTunnelOpen s1
                in if IsTunnelOpen tc (world s2)
                      \<and> Seconds elapsed > Seconds (inactivityTimeout s2) then
                     let s3 = emit (Log INFO ''shutting down tunnel after inactivity period'' None) s2;
                         r = CloseTunnel tc (world s3);
                         s4 = (emit CallCloseTunnel s3)\<lparr>world := snd r\<rparr>
                     in (case fst r of
                           Some err \<Rightarrow> emit (Log ERROR ''unable to shutdown tunnel'' (Some err)) s4
                         | None \<Rightarrow> s4)
                   else s2))"

text \<open>The loop body over a series of ticks, each with its clock reading.\<close>

fun monitorTicks :: "Time list \<Rightarrow> 'w system \<Rightarrow> 'w system" where
  "monitorTicks [] s = s"
| "monitorTicks (now # nows) s = monitorTicks nows (monitorTick now s)"

subsection \<open>Life cycle\<close>

text \<open>
  \<^verbatim>\<open>time.NewTicker\<close> panics on a period that is not positive. A launched loop
  goroutine starts before its \<^verbatim>\<open>select\<close>; the poll loop keeps the period of its
  ticker.
\<close>

definition startStatusPollLoop :: "'w system \<Rightarrow> 'w system result" where
  "startStatusPollLoop s =
     (let s1 = emit (Log DEBUG ''starting Portainer short-polling client'' None) s;
          d = wrap64 (Duration_of_float64 (pollIntervalInSeconds s1) * Second)
      in if d \<le> 0 then Panic ''non-positive interval for NewTicker''
         else Done (s1\<lparr>goroutines := goroutines s1 @ [PollLoop d AtSelect]\<rparr>))"

definition startActivityMonitoringLoop :: "'w system \<Rightarrow> 'w system" where
  "startActivityMonitoringLoop s =
     (case tunnelClient s of
        None \<Rightarrow> s
      | Some tc \<Rightarrow>
          let m = makeChan s;
              s1 = emit (Log DEBUG ''starting activity monitoring loop'' None) (snd m)
          in s1\<lparr>goroutines := goroutines s1 @ [MonitorLoop (fst m) AtSelect]\<rparr>)"

definition start :: "'w system \<Rightarrow> (error option \<times> 'w system) result" where
  "start s =
     (case refreshSignal s of
        Some c \<Rightarrow> Done (None, s)
      | None \<Rightarrow>
          let m = makeChan s;
              s1 = (snd m)\<lparr>refreshSignal := Some (fst m)\<rparr>
          in (case startStatusPollLoop s1 of
                Panic msg \<Rightarrow> Panic msg
              | Done s2 \<Rightarrow> Done (None, startActivityMonitoringLoop s2)))"

definition stop :: "'w system \<Rightarrow> (error option \<times> 'w system) result" where
  "stop s =
     (case refreshSignal s of
        None \<Rightarrow> Done (None, s)
      | Some c \<Rightarrow>
          if c \<in> closedChans s then Panic ''close of closed channel''
          else Done (None, s\<lparr>closedChans := insert c (closedChans s), refreshSignal := None\<rparr>))"

definition restartStatusPollLoop :: "'w system \<Rightarrow> 'w system result" where
  "restartStatusPollLoop s =
     (case stop s of
        Panic msg \<Rightarrow> Panic msg
      | Done r \<Rightarrow>
          let m = makeChan (snd r);
              s1 = (snd m)\<lparr>refreshSignal := Some (fst m)\<rparr>
          in startStatusPollLoop s1)"

subsection \<open>The goroutines, step by step\<close>

text \<open>
  Lines 133 to 146 and 163 to 188. A loop evaluates the channel operands of its
  \<^verbatim>\<open>select\<close> when it enters it: the poll loop reads \<^verbatim>\<open>service.refreshSignal\<close>
  at that moment. Blocked, it takes a tick of its ticker, or the receive from the
  channel it read once that channel is closed (a \<^verbatim>\<open>nil\<close> channel is never ready).
\<close>

definition pollLoopTick :: "libs \<Rightarrow> Time \<Rightarrow> 'w system \<Rightarrow> 'w system" where
  "pollLoopTick L now s =
     (let r = poll L now s
      in (case fst r of
            Some err \<Rightarrow> emit (Log ERROR ''an error occured during short poll'' (Some err)) (snd r)
          | None \<Rightarrow> snd r))"

definition pollLoopRefresh :: "'w system \<Rightarrow> 'w system" where
  "pollLoopRefresh s = emit (Log DEBUG ''shutting down Portainer short-polling client'' None) s"

datatype action =
    CallStart
  | CallStop
  | CallResetActivityTimer Time
  | EnterSelect nat
  | Tick nat Time
  | Refresh nat
  | RunRestart nat

definition setGoroutine :: "nat \<Rightarrow> goroutine \<Rightarrow> 'w system \<Rightarrow> 'w system" where
  "setGoroutine i g s = s\<lparr>goroutines := (goroutines s)[i := g]\<rparr>"

definition ready :: "'w system \<Rightarrow> chan option \<Rightarrow> bool" where
  "ready s c = (case c of None \<Rightarrow> False | Some a \<Rightarrow> a \<in> closedChans s)"

text \<open>
  One step of the system: a caller invokes an exported operation, or goroutine \<open>i\<close>
  advances. A step that is not enabled leaves the system as it is.
\<close>

definition step :: "libs \<Rightarrow> action \<Rightarrow> 'w system \<Rightarrow> 'w system result" where
  "step L a s =
     (case a of
        CallStart \<Rightarrow> (case start s of Panic msg \<Rightarrow> Panic msg | Done r \<Rightarrow> Done (snd r))
      | CallStop \<Rightarrow> (case stop s of Panic msg \<Rightarrow> Panic msg | Done r \<Rightarrow> Done (snd r))
      | CallResetActivityTimer now \<Rightarrow> Done (resetActivityTimer now s)
      | EnterSelect i \<Rightarrow>
          (if i < length (goroutines s) then
             (case goroutines s ! i of
                PollLoop d AtSelect \<Rightarrow>
                  Done (setGoroutine i (PollLoop d (Waiting (refreshSignal s))) s)
              | MonitorLoop quit AtSelect \<Rightarrow>
                  Done (setGoroutine i (MonitorLoop quit (Waiting (Some quit))) s)
              | _ \<Rightarrow> Done s)
           else Done s)
      | Tick i now \<Rightarrow>
          (if i < length (goroutines s) then
             (case goroutines s ! i of
                PollLoop d (Waiting c) \<Rightarrow>
                  Done (setGoroutine i (PollLoop d AtSelect) (pollLoopTick L now s))
              | MonitorLoop quit (Waiting c) \<Rightarrow>
                  Done (setGoroutine i (MonitorLoop quit AtSelect) (monitorTick now s))
              | _ \<Rightarrow> Done s)
           else Done s)
      | Refresh i \<Rightarrow>
          (if i < length (goroutines s) then
             (case goroutines s ! i of
                PollLoop d (Waiting c) \<Rightarrow>
                  (if ready s c then Done (setGoroutine i (PollLoop d Exited) (pollLoopRefresh s))
                   else Done s)
              | MonitorLoop quit (Waiting c) \<Rightarrow>
                  (if ready s c then Done (setGoroutine i (MonitorLoop quit Exited) s)
                   else Done s)
              | _ \<Rightarrow> Done s)
           else Done s)
      | RunRestart i \<Rightarrow>
          (if i < length (goroutines s) then
             (case goroutines s ! i of
                RestartCall False \<Rightarrow>
                  (case restartStatusPollLoop s of
                     Panic msg \<Rightarrow> Panic msg
                   | Done s1 \<Rightarrow> Done (setGoroutine i (RestartCall True) s1))
              | _ \<Rightarrow> Done s)
           else Done s))"

fun run :: "libs \<Rightarrow> action list \<Rightarrow> 'w system \<Rightarrow> 'w system result" where
  "run L [] s = Done s"
| "run L (a # as) s = (case step L a s of Panic msg \<Rightarrow> Panic msg | Done s1 \<Rightarrow> run L as s1)"

text \<open>
  A status-poll loop is active when it has not returned and is not blocked on a
  channel that is already closed.
\<close>

definition activePollLoop :: "'w system \<Rightarrow> goroutine \<Rightarrow> bool" where
  "activePollLoop s g =
     (case g of
        PollLoop d p \<Rightarrow>
          (case p of AtSelect \<Rightarrow> True | Waiting c \<Rightarrow> \<not> ready s c | Exited \<Rightarrow> False)
      | _ \<Rightarrow> False)"

definition activePollLoops :: "'w system \<Rightarrow> nat" where
  "activePollLoops s = length (filter (activePollLoop s) (goroutines s))"

text \<open>
  The system as the tunnel step finds it: after a fetch that left the outside state
  \<open>w\<close>, and the debug line that prints the response.
\<close>

definition fetched :: "'w \<Rightarrow> 'w system \<Rightarrow> 'w system" where
  "fetched w s = emit (Log DEBUG ''status'' None) ((emit CallGetEnvironmentStatus s)\<lparr>world := w\<rparr>)"

subsection \<open>Reading the events\<close>

text \<open>
  The events of the convergence steps of an iteration: schedules, log requests, the
  cadence change (timeout and restart) and the stacks.
\<close>

definition isConvergence :: "event \<Rightarrow> bool" where
  "isConvergence e =
     (case e of
        CallSchedule xs \<Rightarrow> True
      | CallHandleReceivedLogsRequests ids \<Rightarrow> True
      | CallSetTimeout d \<Rightarrow> True
      | GoRestartStatusPollLoop \<Rightarrow> True
      | CallUpdateStacksStatus m \<Rightarrow> True
      | _ \<Rightarrow> False)"

definition isSetTimeout :: "event \<Rightarrow> bool" where
  "isSetTimeout e = (case e of CallSetTimeout d \<Rightarrow> True | _ \<Rightarrow> False)"

definition isRestart :: "event \<Rightarrow> bool" where
  "isRestart e = (case e of GoRestartStatusPollLoop \<Rightarrow> True | _ \<Rightarrow> False)"

definition isUpdateStacks :: "event \<Rightarrow> bool" where
  "isUpdateStacks e = (case e of CallUpdateStacksStatus m \<Rightarrow> True | _ \<Rightarrow> False)"

definition isCreateTunnel :: "event \<Rightarrow> bool" where
  "isCreateTunnel e = (case e of CallCreateTunnel c \<Rightarrow> True | _ \<Rightarrow> False)"

definition isCloseTunnel :: "event \<Rightarrow> bool" where
  "isCloseTunnel e = (case e of CallCloseTunnel \<Rightarrow> True | _ \<Rightarrow> False)"

text \<open>The events an operation added to those of the state it started from.\<close>

definition newEvents :: "'w system \<Rightarrow> 'w system \<Rightarrow> event list" where
  "newEvents s s' = drop (length (trace s)) (trace s')"

subsection \<open>A concrete system\<close>

text \<open>
  Collaborators over an outside state that is only the tunnel's open flag: a status
  client that answers with a fixed result, a tunnel client whose create succeeds or is
  refused, and a decoder and decrypter that reject one input each.
\<close>

definition exClient :: "error + PollStatusResponse \<Rightarrow> bool PortainerClient" where
  "exClient r = \<lparr> GetEnvironmentStatus = (\<lambda>w. (r, w)), SetTimeout = (\<lambda>d w. w) \<rparr>"

definition exTunnel :: "bool \<Rightarrow> bool ReverseTunnelClient" where
  "exTunnel ok =
     \<lparr> IsTunnelOpen = (\<lambda>w. w),
       CreateTunnel = (\<lambda>c w. if ok then (None, True) else (Some (Error ''refused''), w)),
       CloseTunnel = (\<lambda>w. (None, False)) \<rparr>"

definition exLibs :: libs where
  "exLibs =
     \<lparr> DecodeString = (\<lambda>x. if x = ''!'' then Inl (Error ''illegal base64 data'') else Inr x),
       Decrypt = (\<lambda>x k. if x = ''?'' then Inl (Error ''message authentication failed'') else Inr x) \<rparr>"

definition exSystem ::
  "error + PollStatusResponse \<Rightarrow> bool ReverseTunnelClient option \<Rightarrow> bool \<Rightarrow> bool system" where
  "exSystem r tc isOpen =
     \<lparr> apiServerAddr = ''127.0.0.1:9001'',
       pollIntervalInSeconds = 5,
       inactivityTimeout = 30000000000,
       edgeID = ''edge-1'',
       portainerClient = exClient r,
       tunnelClient = tc,
       scheduleManager = \<lparr> ScheduleJobs = (\<lambda>xs w. (None, w)) \<rparr>,
       lastActivity = 0,
       refreshSignal = None,
       edgeStackManager = \<lparr> UpdateStacksStatus = (\<lambda>m w. (None, w)) \<rparr>,
       portainerURL = ''https://portainer.example'',
       endpointID = ''7'',
       tunnelServerAddr = ''portainer.example:8000'',
       tunnelServerFingerprint = ''fingerprint'',
       logsManager = \<lparr> HandleReceivedLogsRequests = (\<lambda>ids w. w) \<rparr>,
       world = isOpen,
       trace = [],
       closedChans = {},
       nextChan = 0,
       goroutines = [] \<rparr>"

definition exResponse :: "string \<Rightarrow> float64 \<Rightarrow> StackStatus list option \<Rightarrow> PollStatusResponse" where
  "exResponse st interval stacks =
     \<lparr> Status = st, Port = 9000, Schedules = [], CheckinInterval = interval,
       Credentials = ''abc'', Stacks = stacks \<rparr>"

section \<open>Properties\<close>

subsection \<open>Stepwise facts about one iteration\<close>

lemma newTunnelConfig_update [simp]:
  "newTunnelConfig (s\<lparr>trace := t\<rparr>) = newTunnelConfig s"
  "newTunnelConfig (s\<lparr>world := w\<rparr>) = newTunnelConfig s"
  by (simp_all add: newTunnelConfig_def fun_eq_iff)

lemma poll_fetch_fails:
  assumes "fst (GetEnvironmentStatus (portainerClient s) (world s)) = Inl err"
  shows "poll L now s =
           (Some err, s\<lparr>world := snd (GetEnvironmentStatus (portainerClient s) (world s)),
                         trace := trace s @ [CallGetEnvironmentStatus]\<rparr>)"
  using assms by (simp add: poll_def emit_def Let_def)

lemma poll_fetch_ok:
  assumes "GetEnvironmentStatus (portainerClient s) (world s) = (Inr r, w)"
  shows "poll L now s =
           (let t = pollTunnel L now r (fetched w s)
            in (case fst t of
                  Some err \<Rightarrow> (Some err, snd t)
                | None \<Rightarrow> pollStacks r (pollCadence r (pollSchedules r (snd t)))))"
  using assms by (simp add: poll_def fetched_def emit_def Let_def)

lemma createTunnel_decode_fail:
  assumes "tunnelClient s = Some tc" "DecodeString L enc = Inl err"
  shows "createTunnel L now enc port s = (Some err, s)"
  using assms by (simp add: createTunnel_def)

lemma createTunnel_decrypt_fail:
  assumes "tunnelClient s = Some tc" "DecodeString L enc = Inr dec"
    and "Decrypt L dec (edgeID s) = Inl err"
  shows "createTunnel L now enc port s = (Some err, s)"
  using assms by (simp add: createTunnel_def)

lemma createTunnel_create_fail:
  assumes "tunnelClient s = Some tc" "DecodeString L enc = Inr dec"
    and "Decrypt L dec (edgeID s) = Inr cred"
    and "fst (CreateTunnel tc (newTunnelConfig s cred port) (world s)) = Some err"
  shows "createTunnel L now enc port s =
           (Some err, s\<lparr>world := snd (CreateTunnel tc (newTunnelConfig s cred port) (world s)),
                         trace := trace s @ [CallCreateTunnel (newTunnelConfig s cred port)]\<rparr>)"
  using assms by (simp add: createTunnel_def emit_def Let_def)

lemma pollTunnel_required_closed:
  assumes "tunnelClient s = Some tc" "Status r = ''REQUIRED''" "\<not> IsTunnelOpen tc (world s)"
  shows "pollTunnel L now r s =
     (let c = createTunnel L now (Credentials r) (Port r)
               (s\<lparr>trace := trace s @ [CallIsTunnelOpen,
                     Log DEBUG ''Required status detected, creating reverse tunnel'' None]\<rparr>)
      in (case fst c of
            Some err \<Rightarrow> (Some err, emit (Log ERROR ''Unable to create tunnel'' (Some err)) (snd c))
          | None \<Rightarrow> (None, snd c)))"
  using assms
  by (simp add: pollTunnel_def pollTunnelIdle_def pollTunnelRequired_def emit_def Let_def)


lemma poll_create_refused:
  assumes tc: "tunnelClient s = Some tc"
    and fetch: "GetEnvironmentStatus (portainerClient s) (world s) = (Inr r, w)"
    and req: "Status r = ''REQUIRED''"
    and closed: "\<not> IsTunnelOpen tc w"
    and dec: "DecodeString L (Credentials r) = Inr dec"
    and cred: "Decrypt L dec (edgeID s) = Inr cred"
    and refused: "fst (CreateTunnel tc (newTunnelConfig s cred (Port r)) w) = Some err"
  shows "poll L now s =
           (Some err,
            s\<lparr>world := snd (CreateTunnel tc (newTunnelConfig s cred (Port r)) w),
              trace := trace s @
                [CallGetEnvironmentStatus, Log DEBUG ''status'' None, CallIsTunnelOpen,
                 Log DEBUG ''Required status detected, creating reverse tunnel'' None,
                 CallCreateTunnel (newTunnelConfig s cred (Port r)),
                 Log ERROR ''Unable to create tunnel'' (Some err)]\<rparr>)"
proof -
  let ?s1 = "fetched w s"
  let ?s3 = "?s1\<lparr>trace := trace ?s1 @ [CallIsTunnelOpen,
                     Log DEBUG ''Required status detected, creating reverse tunnel'' None]\<rparr>"
  have c: "createTunnel L now (Credentials r) (Port r) ?s3 =
            (Some err, ?s3\<lparr>world := snd (CreateTunnel tc (newTunnelConfig s cred (Port r)) w),
                           trace := trace ?s3 @ [CallCreateTunnel (newTunnelConfig s cred (Port r))]\<rparr>)"
    using createTunnel_create_fail [of ?s3 tc L "Credentials r" dec cred "Port r" err now]
      tc dec cred refused
    by (simp add: fetched_def emit_def)
  have t: "pollTunnel L now r ?s1 =
     (let c = createTunnel L now (Credentials r) (Port r) ?s3
      in (case fst c of
            Some err \<Rightarrow> (Some err, emit (Log ERROR ''Unable to create tunnel'' (Some err)) (snd c))
          | None \<Rightarrow> (None, snd c)))"
    using pollTunnel_required_closed [of ?s1 tc r L now] tc req closed
    by (simp add: fetched_def emit_def)
  show ?thesis
    using poll_fetch_ok [OF fetch, of L now] t c
    by (simp add: Let_def fetched_def emit_def)
qed


subsection \<open>The events of an iteration\<close>

lemma isSetTimeout_conv: "isSetTimeout e \<Longrightarrow> isConvergence e"
  and isRestart_conv: "isRestart e \<Longrightarrow> isConvergence e"
  and isUpdateStacks_conv: "isUpdateStacks e \<Longrightarrow> isConvergence e"
  by (cases e; simp add: isSetTimeout_def isRestart_def isUpdateStacks_def isConvergence_def)+

lemma filter_conv_empty:
  assumes "filter isConvergence ev = []"
  shows "filter isSetTimeout ev = []" "filter isRestart ev = []" "filter isUpdateStacks ev = []"
  using assms isSetTimeout_conv isRestart_conv isUpdateStacks_conv
  by (auto simp: filter_empty_conv)

lemma drop_prefix: "t2 = t @ X \<Longrightarrow> drop (length t) t2 = X"
  by simp

lemma newEvents_trans:
  assumes "trace s1 = trace s @ newEvents s s1" "trace s2 = trace s1 @ newEvents s1 s2"
  shows "newEvents s s2 = newEvents s s1 @ newEvents s1 s2"
    and "trace s2 = trace s @ newEvents s s2"
proof -
  have h: "trace s2 = trace s @ (newEvents s s1 @ newEvents s1 s2)"
    using assms by (metis append.assoc)
  show e: "newEvents s s2 = newEvents s s1 @ newEvents s1 s2"
    unfolding newEvents_def [of s s2] by (rule drop_prefix [OF h])
  show "trace s2 = trace s @ newEvents s s2"
    using h e by simp
qed

lemma isCreateTunnel_conv: "isCreateTunnel e \<Longrightarrow> \<not> isConvergence e"
  by (cases e; simp add: isCreateTunnel_def isConvergence_def)

lemma pollTunnelIdle_trace:
  "trace (pollTunnelIdle r tc s) = trace s @ newEvents s (pollTunnelIdle r tc s)"
  by (simp add: pollTunnelIdle_def emit_def Let_def newEvents_def split: option.split)

lemma pollTunnelIdle_events:
  "filter isConvergence (newEvents s (pollTunnelIdle r tc s)) = []"
  "filter isCreateTunnel (newEvents s (pollTunnelIdle r tc s)) = []"
  by (simp_all add: pollTunnelIdle_def emit_def Let_def newEvents_def isConvergence_def
        isCreateTunnel_def split: option.split)

lemma pollTunnelIdle_fields:
  "pollIntervalInSeconds (pollTunnelIdle r tc s) = pollIntervalInSeconds s"
  "goroutines (pollTunnelIdle r tc s) = goroutines s"
  "tunnelClient (pollTunnelIdle r tc s) = tunnelClient s"
  "lastActivity (pollTunnelIdle r tc s) = lastActivity s"
  by (simp_all add: pollTunnelIdle_def emit_def Let_def split: option.split)

lemma pollTunnelRequired_trace:
  "trace (snd (pollTunnelRequired L now r tc s)) =
     trace s @ newEvents s (snd (pollTunnelRequired L now r tc s))"
  by (simp add: pollTunnelRequired_def createTunnel_def resetActivityTimer_def emit_def Let_def
        newEvents_def split: option.split sum.split)

lemma pollTunnelRequired_noconv:
  "filter isConvergence (newEvents s (snd (pollTunnelRequired L now r tc s))) = []"
  by (simp add: pollTunnelRequired_def createTunnel_def resetActivityTimer_def emit_def Let_def
        newEvents_def isConvergence_def split: option.split sum.split)

lemma pollTunnelRequired_fields:
  "pollIntervalInSeconds (snd (pollTunnelRequired L now r tc s)) = pollIntervalInSeconds s"
  "goroutines (snd (pollTunnelRequired L now r tc s)) = goroutines s"
  "tunnelClient (snd (pollTunnelRequired L now r tc s)) = tunnelClient s"
  by (simp_all add: pollTunnelRequired_def createTunnel_def resetActivityTimer_def emit_def
        Let_def split: option.split sum.split)

lemma pollTunnelRequired_lastActivity:
  "lastActivity (snd (pollTunnelRequired L now r tc s)) = lastActivity s
   \<or> filter isCreateTunnel (newEvents s (snd (pollTunnelRequired L now r tc s))) \<noteq> []"
  by (simp add: pollTunnelRequired_def createTunnel_def resetActivityTimer_def emit_def Let_def
        newEvents_def isCreateTunnel_def split: option.split sum.split)

lemma pollTunnel_trace:
  "trace (snd (pollTunnel L now r s)) = trace s @ newEvents s (snd (pollTunnel L now r s))"
proof (cases "tunnelClient s")
  case None
  then show ?thesis by (simp add: pollTunnel_def newEvents_def)
next
  case (Some tc)
  then show ?thesis
    using newEvents_trans(2) [OF pollTunnelIdle_trace [of r tc s]
        pollTunnelRequired_trace [of L now r tc "pollTunnelIdle r tc s"]]
    by (simp add: pollTunnel_def)
qed

lemma pollTunnel_events:
  "tunnelClient s = Some tc \<Longrightarrow>
     newEvents s (snd (pollTunnel L now r s)) =
       newEvents s (pollTunnelIdle r tc s)
       @ newEvents (pollTunnelIdle r tc s) (snd (pollTunnelRequired L now r tc (pollTunnelIdle r tc s)))"
  using newEvents_trans(1) [OF pollTunnelIdle_trace [of r tc s]
      pollTunnelRequired_trace [of L now r tc "pollTunnelIdle r tc s"]]
  by (simp add: pollTunnel_def)

lemma pollTunnel_noconv:
  "filter isConvergence (newEvents s (snd (pollTunnel L now r s))) = []"
proof (cases "tunnelClient s")
  case None
  then show ?thesis by (simp add: pollTunnel_def newEvents_def)
next
  case (Some tc)
  then show ?thesis
    by (simp add: pollTunnel_events pollTunnelIdle_events pollTunnelRequired_noconv)
qed

lemma pollTunnel_fields:
  "pollIntervalInSeconds (snd (pollTunnel L now r s)) = pollIntervalInSeconds s"
  "goroutines (snd (pollTunnel L now r s)) = goroutines s"
  "tunnelClient (snd (pollTunnel L now r s)) = tunnelClient s"
  by (simp_all add: pollTunnel_def pollTunnelRequired_fields pollTunnelIdle_fields
        split: option.split)

lemma pollTunnel_lastActivity:
  assumes "lastActivity (snd (pollTunnel L now r s)) \<noteq> lastActivity s"
  shows "filter isCreateTunnel (newEvents s (snd (pollTunnel L now r s))) \<noteq> []"
proof (cases "tunnelClient s")
  case None
  then show ?thesis using assms by (simp add: pollTunnel_def)
next
  case (Some tc)
  then have "lastActivity (snd (pollTunnelRequired L now r tc (pollTunnelIdle r tc s)))
               \<noteq> lastActivity (pollTunnelIdle r tc s)"
    using assms by (simp add: pollTunnel_def pollTunnelIdle_fields)
  then have "filter isCreateTunnel
      (newEvents (pollTunnelIdle r tc s) (snd (pollTunnelRequired L now r tc (pollTunnelIdle r tc s)))) \<noteq> []"
    using pollTunnelRequired_lastActivity [of L now r tc "pollTunnelIdle r tc s"] by blast
  then show ?thesis
    using Some by (simp add: pollTunnel_events)
qed

lemma converge_trace:
  "trace (snd (pollStacks r (pollCadence r (pollSchedules r s)))) =
     trace s @ newEvents s (snd (pollStacks r (pollCadence r (pollSchedules r s))))"
  by (simp add: pollStacks_def pollCadence_def pollSchedules_def emit_def Let_def
        newEvents_def split: option.split)

lemma converge_cadence:
  "filter isSetTimeout (newEvents s (snd (pollStacks r (pollCadence r (pollSchedules r s))))) =
     (if CheckinInterval r > 0 \<and> CheckinInterval r \<noteq> pollIntervalInSeconds s
      then [CallSetTimeout (wrap64 (Duration_of_float64 (CheckinInterval r) * Second))] else [])"
  "filter isRestart (newEvents s (snd (pollStacks r (pollCadence r (pollSchedules r s))))) =
     (if CheckinInterval r > 0 \<and> CheckinInterval r \<noteq> pollIntervalInSeconds s
      then [GoRestartStatusPollLoop] else [])"
  "pollIntervalInSeconds (snd (pollStacks r (pollCadence r (pollSchedules r s)))) =
     (if CheckinInterval r > 0 \<and> CheckinInterval r \<noteq> pollIntervalInSeconds s
      then CheckinInterval r else pollIntervalInSeconds s)"
  "goroutines (snd (pollStacks r (pollCadence r (pollSchedules r s)))) =
     (if CheckinInterval r > 0 \<and> CheckinInterval r \<noteq> pollIntervalInSeconds s
      then goroutines s @ [RestartCall False] else goroutines s)"
  by (simp_all add: pollStacks_def pollCadence_def pollSchedules_def emit_def Let_def
        newEvents_def isSetTimeout_def isRestart_def split: option.split)

lemma converge_stacks:
  "filter isUpdateStacks (newEvents s (snd (pollStacks r (pollCadence r (pollSchedules r s))))) =
     (case Stacks r of None \<Rightarrow> [] | Some sts \<Rightarrow> [CallUpdateStacksStatus (stacksMap sts)])"
  by (simp add: pollStacks_def pollCadence_def pollSchedules_def emit_def Let_def
        newEvents_def isUpdateStacks_def split: option.split)


lemma fetched_trace:
  "trace (fetched w s) = trace s @ newEvents s (fetched w s)"
  "newEvents s (fetched w s) = [CallGetEnvironmentStatus, Log DEBUG ''status'' None]"
  "pollIntervalInSeconds (fetched w s) = pollIntervalInSeconds s"
  "goroutines (fetched w s) = goroutines s"
  by (simp_all add: fetched_def emit_def newEvents_def)


lemma poll_update_events:
  assumes fetch: "GetEnvironmentStatus (portainerClient s) (world s) = (Inr r, w)"
  shows "filter isUpdateStacks (newEvents s (snd (poll L now s))) =
           (case Stacks r of
              None \<Rightarrow> []
            | Some sts \<Rightarrow>
                if fst (pollTunnel L now r (fetched w s)) = None
                then [CallUpdateStacksStatus (stacksMap sts)] else [])"
proof -
  let ?f = "fetched w s"
  let ?t = "snd (pollTunnel L now r ?f)"
  let ?c = "snd (pollStacks r (pollCadence r (pollSchedules r ?t)))"
  have ft: "newEvents s ?t = newEvents s ?f @ newEvents ?f ?t"
    by (rule newEvents_trans(1) [OF fetched_trace(1) pollTunnel_trace])
  have tt: "trace ?t = trace s @ newEvents s ?t"
    by (rule newEvents_trans(2) [OF fetched_trace(1) pollTunnel_trace])
  have nt: "filter isConvergence (newEvents s ?t) = []"
    using pollTunnel_noconv [of ?f L now r]
    by (simp add: ft fetched_trace(2) isConvergence_def)
  show ?thesis
  proof (cases "fst (pollTunnel L now r ?f)")
    case (Some err)
    then have "snd (poll L now s) = ?t"
      using poll_fetch_ok [OF fetch, of L now] by (simp add: Let_def)
    then show ?thesis
      using Some filter_conv_empty(3) [OF nt] by (simp split: option.split)
  next
    case None
    then have p: "snd (poll L now s) = ?c"
      using poll_fetch_ok [OF fetch, of L now] by (simp add: Let_def)
    have ec: "newEvents s ?c = newEvents s ?t @ newEvents ?t ?c"
      by (rule newEvents_trans(1) [OF tt converge_trace])
    show ?thesis
      using None filter_conv_empty(3) [OF nt]
      by (simp add: p ec converge_stacks split: option.split)
  qed
qed


subsection \<open>The events of the activity monitor\<close>

lemma monitorTick_trace:
  "trace (monitorTick now s) = trace s @ newEvents s (monitorTick now s)"
  by (simp add: monitorTick_def emit_def Let_def newEvents_def split: option.split)

lemma monitorTick_nocreate:
  "filter isCreateTunnel (newEvents s (monitorTick now s)) = []"
  by (simp add: monitorTick_def emit_def Let_def newEvents_def isCreateTunnel_def
        split: option.split)

lemma monitorTick_zero: "IsZero (lastActivity s) \<Longrightarrow> monitorTick now s = s"
  by (simp add: monitorTick_def)

lemma monitorTicks_trace:
  "trace (monitorTicks nows s) = trace s @ newEvents s (monitorTicks nows s)
   \<and> filter isCreateTunnel (newEvents s (monitorTicks nows s)) = []"
proof (induction nows arbitrary: s)
  case Nil
  then show ?case by (simp add: newEvents_def)
next
  case (Cons now nows)
  let ?s1 = "monitorTick now s"
  let ?s2 = "monitorTicks nows ?s1"
  have a: "trace ?s2 = trace ?s1 @ newEvents ?s1 ?s2"
    and b: "filter isCreateTunnel (newEvents ?s1 ?s2) = []"
    using Cons.IH [of ?s1] by simp_all
  have "newEvents s ?s2 = newEvents s ?s1 @ newEvents ?s1 ?s2"
    by (rule newEvents_trans(1) [OF monitorTick_trace a])
  moreover have "trace ?s2 = trace s @ newEvents s ?s2"
    by (rule newEvents_trans(2) [OF monitorTick_trace a])
  ultimately show ?case
    using b monitorTick_nocreate [of s now] by simp
qed

lemma monitorTicks_zero: "IsZero (lastActivity s) \<Longrightarrow> monitorTicks nows s = s"
  by (induction nows) (simp_all add: monitorTick_zero)


lemma floor_three_halves: "\<lfloor>3 / 2 :: rat\<rfloor> = 1" "\<lfloor>1 / 2 :: rat\<rfloor> = 0"
  by (simp_all add: floor_eq_iff)


subsection \<open>The stack map\<close>

lemma foldl_stacks_other:
  "k \<notin> StackID ` set sts \<Longrightarrow>
     foldl (\<lambda>m stack. m(StackID stack \<mapsto> Version stack)) m sts k = m k"
  by (induction sts arbitrary: m) auto

lemma foldl_stacks_dom:
  "dom (foldl (\<lambda>m stack. m(StackID stack \<mapsto> Version stack)) m sts) = dom m \<union> StackID ` set sts"
  by (induction sts arbitrary: m) auto

lemma stacksMap_empty: "stacksMap [] = Map.empty"
  by (simp add: stacksMap_def)

lemma stacksMap_dom: "dom (stacksMap sts) = StackID ` set sts"
  by (simp add: stacksMap_def foldl_stacks_dom)

lemma stacksMap_last:
  assumes j: "j < length sts"
    and last: "\<forall>k. j < k \<and> k < length sts \<longrightarrow> StackID (sts ! k) \<noteq> StackID (sts ! j)"
  shows "stacksMap sts (StackID (sts ! j)) = Some (Version (sts ! j))"
proof -
  have split: "sts = take j sts @ sts ! j # drop (Suc j) sts"
    using j by (simp add: id_take_nth_drop)
  have "StackID (sts ! j) \<notin> StackID ` set (drop (Suc j) sts)"
  proof
    assume "StackID (sts ! j) \<in> StackID ` set (drop (Suc j) sts)"
    then obtain x where x: "x \<in> set (drop (Suc j) sts)" "StackID x = StackID (sts ! j)"
      by auto
    then obtain n where n: "n < length (drop (Suc j) sts)" "drop (Suc j) sts ! n = x"
      by (auto simp: in_set_conv_nth)
    then have "Suc j + n < length sts" "sts ! (Suc j + n) = x"
      using j by auto
    with last x(2) show False
      by (metis add_Suc less_add_Suc1)
  qed
  then have "foldl (\<lambda>m stack. m(StackID stack \<mapsto> Version stack))
               ((foldl (\<lambda>m stack. m(StackID stack \<mapsto> Version stack)) Map.empty (take j sts))
                   (StackID (sts ! j) \<mapsto> Version (sts ! j)))
               (drop (Suc j) sts) (StackID (sts ! j)) = Some (Version (sts ! j))"
    by (simp add: foldl_stacks_other)
  moreover have "stacksMap sts =
      foldl (\<lambda>m stack. m(StackID stack \<mapsto> Version stack))
               ((foldl (\<lambda>m stack. m(StackID stack \<mapsto> Version stack)) Map.empty (take j sts))
                   (StackID (sts ! j) \<mapsto> Version (sts ! j)))
               (drop (Suc j) sts)"
    unfolding stacksMap_def by (subst split) simp
  ultimately show ?thesis by simp
qed

lemma stacksMap_distinct:
  assumes d: "distinct (map StackID sts)" and st: "st \<in> set sts"
  shows "stacksMap sts (StackID st) = Some (Version st)"
proof -
  from st obtain j where j: "j < length sts" "sts ! j = st"
    by (auto simp: in_set_conv_nth)
  have "\<forall>k. j < k \<and> k < length sts \<longrightarrow> StackID (sts ! k) \<noteq> StackID (sts ! j)"
  proof (intro allI impI)
    fix k assume k: "j < k \<and> k < length sts"
    then have "map StackID sts ! k \<noteq> map StackID sts ! j"
      using d j(1) by (simp add: nth_eq_iff_index_eq del: nth_map)
    then show "StackID (sts ! k) \<noteq> StackID (sts ! j)"
      using k j(1) by simp
  qed
  from stacksMap_last [OF j(1) this] j(2) show ?thesis by simp
qed

lemma stacksMap_card:
  assumes "i < j" "j < length sts" "StackID (sts ! i) = StackID (sts ! j)"
  shows "card (dom (stacksMap sts)) < length sts"
proof -
  have "\<not> distinct (map StackID sts)"
  proof
    assume d: "distinct (map StackID sts)"
    have "i < length (map StackID sts)" "j < length (map StackID sts)"
      using assms by simp_all
    from nth_eq_iff_index_eq [OF d this] assms show False
      by simp
  qed
  then have "card (set (map StackID sts)) \<noteq> length (map StackID sts)"
    using card_distinct by blast
  moreover have "card (set (map StackID sts)) \<le> length (map StackID sts)"
    by (rule card_length)
  ultimately show ?thesis
    by (simp add: stacksMap_dom)
qed

subsection \<open>Rounding to float64 is monotone\<close>

lemma pow2_powi: "pow2 e = 2 powi e"
  by (simp add: pow2_def power_int_def inverse_eq_divide power_one_over)

lemma pow2_pos [simp]: "0 < pow2 e"
  by (simp add: pow2_powi)

lemma pow2_add: "pow2 (a + b) = pow2 a * pow2 b"
  by (simp add: pow2_powi power_int_add)

lemma pow2_mono: "a \<le> b \<Longrightarrow> pow2 a \<le> pow2 b"
  by (simp add: pow2_powi power_int_increasing)

lemma pow2_nat: "pow2 (int n) = 2 ^ n"
  by (simp add: pow2_def)

lemma pow2_neg: "pow2 (- e) = 1 / pow2 e"
  by (simp add: pow2_powi power_int_minus inverse_eq_divide)

lemma bitlen_bounds:
  "0 < n \<Longrightarrow> 2 ^ (bitlen n - 1) \<le> n \<and> n < 2 ^ bitlen n"
proof (induction n rule: bitlen.induct)
  case (1 n)
  show ?case
  proof (cases "n = 1")
    case True
    then show ?thesis by (simp add: bitlen.simps [of 1] bitlen.simps [of 0])
  next
    case False
    with "1.prems" have h: "0 < n div 2" by simp
    then have ih: "2 ^ (bitlen (n div 2) - 1) \<le> n div 2 \<and> n div 2 < 2 ^ bitlen (n div 2)"
      using "1.IH" "1.prems" by simp
    have pos: "0 < bitlen (n div 2)"
      using h by (simp add: bitlen.simps [of "n div 2"])
    have b: "bitlen n = Suc (bitlen (n div 2))"
      using "1.prems" by (simp add: bitlen.simps [of n])
    have "2 ^ (bitlen n - 1) = 2 * (2::int) ^ (bitlen (n div 2) - 1)"
      using pos b by (cases "bitlen (n div 2)") simp_all
    also have "\<dots> \<le> 2 * (n div 2)" using ih by simp
    also have "\<dots> \<le> n" by simp
    finally have lo: "2 ^ (bitlen n - 1) \<le> n" .
    have "n < 2 * (n div 2) + 2" by simp
    also have "\<dots> \<le> 2 * 2 ^ bitlen (n div 2)" using ih by simp
    finally have "n < 2 ^ bitlen n" using b by simp
    with lo show ?thesis by simp
  qed
qed

lemma rne_spec:
  "\<bar>m - of_int (rne m)\<bar> < 1 / 2 \<or> (\<bar>m - of_int (rne m)\<bar> = 1 / 2 \<and> even (rne m))"
proof -
  define f where "f = \<lfloor>m\<rfloor>"
  define r where "r = m - of_int f"
  have r: "0 \<le> r" "r < 1"
    unfolding r_def f_def by linarith+
  have e: "rne m = (if r < 1 / 2 then f else if 1 / 2 < r then f + 1
                    else if even f then f else f + 1)"
    by (simp add: rne_def Let_def f_def r_def)
  have down: "rne m = f \<Longrightarrow> m - of_int (rne m) = r"
    by (simp add: r_def)
  have up: "rne m = f + 1 \<Longrightarrow> m - of_int (rne m) = r - 1"
    by (simp add: r_def)
  consider (lo) "r < 1 / 2" | (hi) "1 / 2 < r" | (tie) "r = 1 / 2"
    by linarith
  then show ?thesis
  proof cases
    case lo
    then have k: "rne m = f" by (simp add: e)
    show ?thesis unfolding down [OF k] using lo r by linarith
  next
    case hi
    then have k: "rne m = f + 1" by (simp add: e)
    show ?thesis unfolding up [OF k] using hi r by linarith
  next
    case tie
    show ?thesis
    proof (cases "even f")
      case True
      then have k: "rne m = f" using tie by (simp add: e)
      have "\<bar>r\<bar> = 1 / 2" using tie by simp
      then show ?thesis unfolding down [OF k] using True k by simp
    next
      case False
      then have k: "rne m = f + 1" using tie by (simp add: e)
      have "\<bar>r - 1\<bar> = 1 / 2" using tie by simp
      then show ?thesis unfolding up [OF k] using False k by simp
    qed
  qed
qed

lemma rne_unique:
  assumes "\<bar>m - of_int n\<bar> < 1 / 2 \<or> (\<bar>m - of_int n\<bar> = 1 / 2 \<and> even n)"
  shows "rne m = n"
proof -
  let ?k = "rne m"
  have s: "\<bar>m - of_int ?k\<bar> < 1 / 2 \<or> (\<bar>m - of_int ?k\<bar> = 1 / 2 \<and> even ?k)"
    by (rule rne_spec)
  have "\<bar>(of_int ?k :: rat) - of_int n\<bar> \<le> \<bar>m - of_int ?k\<bar> + \<bar>m - of_int n\<bar>"
    by linarith
  then have le1: "\<bar>(of_int (?k - n) :: rat)\<bar> \<le> 1"
    using s assms by auto
  then have "\<bar>?k - n\<bar> \<le> 1"
    by (metis of_int_abs of_int_le_1_iff)
  then consider "?k = n" | "?k = n + 1" | "?k = n - 1" by linarith
  then show ?thesis
  proof cases
    case 1
    then show ?thesis .
  next
    case 2
    then have "(of_int ?k :: rat) = of_int n + 1" by simp
    with s assms have "\<bar>m - of_int ?k\<bar> = 1 / 2 \<and> \<bar>m - of_int n\<bar> = 1 / 2" by (auto simp: abs_if split: if_splits)
    with s assms 2 show ?thesis by auto
  next
    case 3
    then have "(of_int ?k :: rat) = of_int n - 1" by simp
    with s assms have "\<bar>m - of_int ?k\<bar> = 1 / 2 \<and> \<bar>m - of_int n\<bar> = 1 / 2" by (auto simp: abs_if split: if_splits)
    with s assms 3 show ?thesis by auto
  qed
qed

lemma rne_of_int [simp]: "rne (of_int n) = n"
  by (rule rne_unique) simp

lemma rne_minus: "rne (- m) = - rne m"
proof (rule rne_unique)
  have "\<bar>- m - of_int (- rne m)\<bar> = \<bar>m - of_int (rne m)\<bar>"
    by simp
  then show "\<bar>- m - of_int (- rne m)\<bar> < 1 / 2
      \<or> (\<bar>- m - of_int (- rne m)\<bar> = 1 / 2 \<and> even (- rne m))"
    using rne_spec [of m] by simp
qed

lemma rne_mono:
  assumes "x \<le> y"
  shows "rne x \<le> rne y"
proof (rule ccontr)
  assume "\<not> rne x \<le> rne y"
  then have "rne y + 1 \<le> rne x" by simp
  then have k: "(of_int (rne y) :: rat) + 1 \<le> of_int (rne x)"
    by (metis of_int_1 of_int_add of_int_le_iff)
  have a: "\<bar>x - of_int (rne x)\<bar> \<le> 1 / 2" using rne_spec [of x] by auto
  have b: "\<bar>y - of_int (rne y)\<bar> \<le> 1 / 2" using rne_spec [of y] by auto
  from a b k assms have "x = y" by linarith
  with \<open>\<not> rne x \<le> rne y\<close> show False by simp
qed

lemma expo_rawexp: "expo x = max (- 1022) (rawexp x)"
  by (simp add: expo_def)

lemma bitlen_pos: "0 < n \<Longrightarrow> 0 < bitlen n"
  by (simp add: bitlen.simps [of n])

lemma pow2_pred: "0 < k \<Longrightarrow> pow2 (int k - 1) = 2 ^ (k - 1)"
  using pow2_nat [of "k - 1"] by (simp add: of_nat_diff)

lemma rawexp_bounds:
  assumes "x \<noteq> 0"
  shows "pow2 (rawexp x) \<le> \<bar>x\<bar> \<and> \<bar>x\<bar> < pow2 (rawexp x + 1)"
proof (cases "1 \<le> \<bar>x\<bar>")
  case True
  define n where "n = \<lfloor>\<bar>x\<bar>\<rfloor>"
  define k where "k = bitlen n"
  have n: "0 < n" using True by (simp add: n_def)
  have fl: "of_int n \<le> \<bar>x\<bar>" "\<bar>x\<bar> < of_int n + 1"
    unfolding n_def by linarith+
  have b: "2 ^ (k - 1) \<le> n" "n < 2 ^ k"
    using bitlen_bounds [OF n] by (simp_all add: k_def)
  have k: "0 < k" using bitlen_pos [OF n] by (simp add: k_def)
  have e: "rawexp x = int k - 1"
    using True by (simp add: rawexp_def n_def k_def)
  have p: "(2::rat) ^ (k - 1) \<le> of_int n"
    using b(1) by (metis of_int_le_iff of_int_numeral of_int_power)
  have lo: "pow2 (rawexp x) \<le> \<bar>x\<bar>"
    unfolding e pow2_pred [OF k] using p fl(1) by (rule order_trans)
  have "n + 1 \<le> 2 ^ k" using b(2) by simp
  then have "(of_int (n + 1) :: rat) \<le> 2 ^ k"
    by (metis of_int_le_iff of_int_numeral of_int_power)
  then have "\<bar>x\<bar> < 2 ^ k" using fl(2) by simp
  then have "\<bar>x\<bar> < pow2 (rawexp x + 1)"
    by (simp add: e pow2_nat)
  with lo show ?thesis by simp
next
  case False
  define y where "y = 1 / \<bar>x\<bar>"
  define n where "n = \<lceil>y\<rceil> - 1"
  define k where "k = bitlen n"
  have x: "0 < \<bar>x\<bar>" "\<bar>x\<bar> < 1" using assms False by simp_all
  have y: "1 < y" using x by (simp add: y_def)
  have ce: "of_int n < y" "y \<le> of_int n + 1"
    unfolding n_def by linarith+
  have "(0::rat) < of_int n" using y ce(2) by linarith
  then have n: "0 < n" by (simp only: of_int_0_less_iff)
  have b: "2 ^ (k - 1) \<le> n" "n < 2 ^ k"
    using bitlen_bounds [OF n] by (simp_all add: k_def)
  have k: "0 < k" using bitlen_pos [OF n] by (simp add: k_def)
  have e: "rawexp x = - int k"
    using False by (simp add: rawexp_def n_def k_def y_def)
  have "n + 1 \<le> 2 ^ k" using b(2) by simp
  then have "(of_int (n + 1) :: rat) \<le> 2 ^ k"
    by (metis of_int_le_iff of_int_numeral of_int_power)
  then have yk: "y \<le> 2 ^ k" using ce(2) by simp
  have "(2::rat) ^ (k - 1) \<le> of_int n"
    using b(1) by (metis of_int_le_iff of_int_numeral of_int_power)
  then have ky: "2 ^ (k - 1) < y" using ce(1) by linarith
  have xy: "\<bar>x\<bar> = 1 / y" using x by (simp add: y_def)
  have "1 / 2 ^ k \<le> 1 / y"
    using yk y by (simp add: frac_le)
  then have lo: "pow2 (rawexp x) \<le> \<bar>x\<bar>"
    by (simp add: e xy pow2_neg pow2_nat)
  have "1 / y < 1 / 2 ^ (k - 1)"
    using ky by (simp add: frac_less2)
  moreover have "pow2 (rawexp x + 1) = 1 / 2 ^ (k - 1)"
    using pow2_neg [of "int k - 1"] by (simp add: e pow2_pred [OF k])
  ultimately show ?thesis using lo by (simp add: xy)
qed

lemma expo_ge: "- 1022 \<le> expo x" and expo_ge_raw: "rawexp x \<le> expo x"
  by (simp_all add: expo_rawexp)

lemma expo_minus [simp]: "expo (- x) = expo x"
  by (simp add: expo_def rawexp_def)

lemma expo_upper: "x \<noteq> 0 \<Longrightarrow> \<bar>x\<bar> < pow2 (expo x + 1)"
proof -
  assume "x \<noteq> 0"
  then have "\<bar>x\<bar> < pow2 (rawexp x + 1)" using rawexp_bounds by blast
  also have "\<dots> \<le> pow2 (expo x + 1)" using expo_ge_raw [of x] by (simp add: pow2_mono)
  finally show ?thesis .
qed

lemma expo_lower: "x \<noteq> 0 \<Longrightarrow> - 1022 < expo x \<Longrightarrow> pow2 (expo x) \<le> \<bar>x\<bar>"
proof -
  assume x: "x \<noteq> 0" and "- 1022 < expo x"
  then have "expo x = rawexp x" by (simp add: expo_rawexp max_def split: if_splits)
  then show ?thesis using rawexp_bounds [OF x] by simp
qed

lemma rawexp_mono:
  assumes "0 < x" "x \<le> y"
  shows "rawexp x \<le> rawexp y"
proof (rule ccontr)
  assume "\<not> rawexp x \<le> rawexp y"
  then have "rawexp y + 1 \<le> rawexp x" by simp
  then have "pow2 (rawexp y + 1) \<le> pow2 (rawexp x)" by (rule pow2_mono)
  moreover have "pow2 (rawexp x) \<le> \<bar>x\<bar>" using rawexp_bounds [of x] assms by simp
  moreover have "\<bar>y\<bar> < pow2 (rawexp y + 1)" using rawexp_bounds [of y] assms by simp
  ultimately show False using assms by simp
qed

lemma expo_mono: "0 < x \<Longrightarrow> x \<le> y \<Longrightarrow> expo x \<le> expo y"
  using rawexp_mono [of x y] by (simp add: expo_rawexp)

lemma rne_zero [simp]: "rne 0 = 0"
  using rne_of_int [of 0] by simp

lemma round64_zero [simp]: "round64 0 = 0"
  by (simp add: round64_def Let_def)

lemma round64_minus: "round64 (- x) = - round64 x"
  by (simp add: round64_def Let_def rne_minus)

lemma rne_nonneg: "0 \<le> m \<Longrightarrow> 0 \<le> rne m"
  using rne_mono [of 0 m] by simp

lemma round64_nonneg: "0 \<le> x \<Longrightarrow> 0 \<le> round64 x"
  by (simp add: round64_def Let_def rne_nonneg less_imp_le)

lemma pow2_split: "pow2 (e + 1) = of_int (2 ^ 53) * pow2 (e - 52)"
proof -
  have "e + 1 = 53 + (e - 52)" by arith
  then have "pow2 (e + 1) = pow2 (53 + (e - 52))" by (rule arg_cong)
  then have "pow2 (e + 1) = pow2 53 * pow2 (e - 52)"
    by (simp only: pow2_add)
  moreover have "pow2 53 = 2 ^ 53" using pow2_nat [of 53] by simp
  ultimately show ?thesis by simp
qed

lemma pow2_split': "pow2 e = of_int (2 ^ 52) * pow2 (e - 52)"
proof -
  have "e = 52 + (e - 52)" by arith
  then have "pow2 e = pow2 (52 + (e - 52))" by (rule arg_cong)
  then have "pow2 e = pow2 52 * pow2 (e - 52)"
    by (simp only: pow2_add)
  moreover have "pow2 52 = 2 ^ 52" using pow2_nat [of 52] by simp
  ultimately show ?thesis by simp
qed

lemma round64_upper:
  assumes "0 < x"
  shows "round64 x \<le> pow2 (expo x + 1)"
proof -
  let ?q = "pow2 (expo x - 52)"
  have "x < of_int (2 ^ 53) * ?q"
    using expo_upper [of x] assms pow2_split [of "expo x"] by simp
  then have "x / ?q \<le> of_int (2 ^ 53)"
    by (simp add: pos_divide_le_eq less_imp_le)
  then have "rne (x / ?q) \<le> 2 ^ 53"
    using rne_mono [of "x / ?q" "of_int (2 ^ 53)"] by (simp only: rne_of_int)
  then have "(of_int (rne (x / ?q)) :: rat) \<le> of_int (2 ^ 53)"
    by (simp only: of_int_le_iff)
  then have "of_int (rne (x / ?q)) * ?q \<le> of_int (2 ^ 53) * ?q"
    by (simp add: mult_right_mono less_imp_le)
  then show ?thesis
    by (simp add: round64_def Let_def pow2_split [of "expo x"])
qed

lemma round64_lower:
  assumes "0 < x" "- 1022 < expo x"
  shows "pow2 (expo x) \<le> round64 x"
proof -
  let ?q = "pow2 (expo x - 52)"
  have "of_int (2 ^ 52) * ?q \<le> x"
    using expo_lower [of x] assms pow2_split' [of "expo x"] by simp
  then have "of_int (2 ^ 52) \<le> x / ?q"
    by (simp add: pos_le_divide_eq)
  then have "2 ^ 52 \<le> rne (x / ?q)"
    using rne_mono [of "of_int (2 ^ 52)" "x / ?q"] by (simp only: rne_of_int)
  then have "(of_int (2 ^ 52) :: rat) \<le> of_int (rne (x / ?q))"
    by (simp only: of_int_le_iff)
  then have "of_int (2 ^ 52) * ?q \<le> of_int (rne (x / ?q)) * ?q"
    by (simp add: mult_right_mono less_imp_le)
  then show ?thesis
    by (simp add: round64_def Let_def pow2_split' [of "expo x"])
qed

lemma round64_mono_pos:
  assumes "0 < x" "x \<le> y"
  shows "round64 x \<le> round64 y"
proof (cases "expo x = expo y")
  case True
  let ?q = "pow2 (expo y - 52)"
  have "x / ?q \<le> y / ?q" using assms by (simp add: divide_right_mono less_imp_le)
  then have "rne (x / ?q) \<le> rne (y / ?q)" by (rule rne_mono)
  then have "(of_int (rne (x / ?q)) :: rat) \<le> of_int (rne (y / ?q))"
    by (simp only: of_int_le_iff)
  then have "of_int (rne (x / ?q)) * ?q \<le> of_int (rne (y / ?q)) * ?q"
    by (simp add: mult_right_mono less_imp_le)
  then show ?thesis by (simp add: round64_def Let_def True)
next
  case False
  then have lt: "expo x < expo y" using expo_mono [OF assms] by simp
  then have "- 1022 < expo y" using expo_ge [of x] by simp
  then have "pow2 (expo y) \<le> round64 y"
    using round64_lower [of y] assms by simp
  moreover have "round64 x \<le> pow2 (expo x + 1)"
    using round64_upper [OF assms(1)] .
  moreover have "pow2 (expo x + 1) \<le> pow2 (expo y)"
    using lt by (simp add: pow2_mono)
  ultimately show ?thesis by simp
qed

lemma round64_mono:
  assumes "x \<le> y"
  shows "round64 x \<le> round64 y"
proof -
  consider (pos) "0 < x" | (zero) "x \<le> 0" "0 \<le> y" | (neg) "y < 0"
    using assms by linarith
  then show ?thesis
  proof cases
    case pos
    then show ?thesis using assms by (rule round64_mono_pos)
  next
    case zero
    have "round64 x \<le> 0"
      using round64_nonneg [of "- x"] zero(1) by (simp add: round64_minus)
    moreover have "0 \<le> round64 y" using zero(2) by (rule round64_nonneg)
    ultimately show ?thesis by simp
  next
    case neg
    then have "round64 (- y) \<le> round64 (- x)"
      using round64_mono_pos [of "- y" "- x"] assms by simp
    then show ?thesis by (simp add: round64_minus)
  qed
qed

lemma rne_numeral [simp]: "rne (numeral n) = numeral n"
  using rne_of_int [of "numeral n"] by simp

lemma rne_one [simp]: "rne 1 = 1"
  using rne_of_int [of 1] by simp

lemma expo_one: "expo 1 = 0"
  by (simp add: expo_def rawexp_def bitlen.simps [of 1] bitlen.simps [of 0])

lemma round64_one: "round64 1 = 1"
  by (simp add: round64_def Let_def expo_one pow2_def)

lemma Seconds_nonneg_eq:
  "0 \<le> d \<Longrightarrow>
     Seconds d = round64 (of_int (d div 1000000000) + round64 (of_int (d mod 1000000000) / 1000000000))"
  by (cases "d = 0") (simp_all add: Seconds_def Let_def quot_def rem_def Second_def)

lemma Seconds_minus: "Seconds (- d) = - Seconds d"
proof -
  have "quot (- d) Second = - quot d Second" "rem (- d) Second = - rem d Second"
    by (simp_all add: quot_def rem_def)
  then show ?thesis
    using round64_minus [of "of_int (rem d Second) / 1000000000"]
      round64_minus [of "of_int (quot d Second) + round64 (of_int (rem d Second) / 1000000000)"]
    by (simp add: Seconds_def Let_def)
qed

lemma Seconds_mono_nonneg:
  assumes "0 \<le> a" "a \<le> b"
  shows "Seconds a \<le> Seconds b"
proof -
  let ?G = "1000000000 :: int"
  let ?f = "\<lambda>d. round64 (of_int (d mod ?G) / 1000000000)"
  have fr: "\<And>d. 0 \<le> ?f d \<and> ?f d \<le> 1"
  proof -
    fix d :: int
    have "0 \<le> d mod ?G" "d mod ?G < ?G" by simp_all
    then have "(0::rat) \<le> of_int (d mod ?G) / 1000000000" "(of_int (d mod ?G) :: rat) / 1000000000 \<le> 1"
      by simp_all
    then show "0 \<le> ?f d \<and> ?f d \<le> 1"
      using round64_nonneg [of "of_int (d mod ?G) / 1000000000"]
        round64_mono [of "of_int (d mod ?G) / 1000000000" 1]
      by (simp add: round64_one)
  qed
  have "of_int (a div ?G) + ?f a \<le> of_int (b div ?G) + ?f b"
  proof (cases "a div ?G = b div ?G")
    case True
    have "a mod ?G \<le> b mod ?G"
      using assms(2) True by (metis add_le_cancel_left mult_div_mod_eq)
    then have "(of_int (a mod ?G) :: rat) / 1000000000 \<le> of_int (b mod ?G) / 1000000000"
      by (simp add: divide_right_mono)
    then have "?f a \<le> ?f b" by (rule round64_mono)
    then show ?thesis using True by simp
  next
    case False
    have "a div ?G \<le> b div ?G" using assms(2) by (simp add: zdiv_mono1)
    then have "a div ?G + 1 \<le> b div ?G" using False by simp
    then have "(of_int (a div ?G) :: rat) + 1 \<le> of_int (b div ?G)"
      by (metis of_int_1 of_int_add of_int_le_iff)
    then show ?thesis using fr [of a] fr [of b] by linarith
  qed
  then show ?thesis
    using assms by (simp add: Seconds_nonneg_eq round64_mono)
qed

lemma Seconds_nonneg: "0 \<le> d \<Longrightarrow> 0 \<le> Seconds d"
  using Seconds_mono_nonneg [of 0 d] by (simp add: Seconds_nonneg_eq)

lemma Seconds_mono:
  assumes "a \<le> b"
  shows "Seconds a \<le> Seconds b"
proof -
  consider (pos) "0 \<le> a" | (mid) "a < 0" "0 \<le> b" | (neg) "b < 0"
    using assms by linarith
  then show ?thesis
  proof cases
    case pos
    then show ?thesis using assms by (rule Seconds_mono_nonneg)
  next
    case mid
    have "0 \<le> Seconds (- a)" using mid(1) by (simp add: Seconds_nonneg)
    then have "Seconds a \<le> 0" by (simp add: Seconds_minus)
    moreover have "0 \<le> Seconds b" using mid(2) by (rule Seconds_nonneg)
    ultimately show ?thesis by simp
  next
    case neg
    then have "Seconds (- b) \<le> Seconds (- a)"
      using Seconds_mono_nonneg [of "- b" "- a"] assms by simp
    then show ?thesis by (simp add: Seconds_minus)
  qed
qed

lemma round64_error: "\<bar>round64 z - z\<bar> \<le> pow2 (expo z - 52) / 2"
proof -
  let ?q = "pow2 (expo z - 52)"
  let ?m = "z / ?q"
  have q: "0 < ?q" by simp
  have "\<bar>?m - of_int (rne ?m)\<bar> \<le> 1 / 2"
    using rne_spec [of ?m] by auto
  then have "\<bar>?m - of_int (rne ?m)\<bar> * ?q \<le> 1 / 2 * ?q"
    using q by (simp only: mult_right_mono less_imp_le)
  moreover have qn: "?q \<noteq> 0"
    using q by linarith
  then have "?m * ?q = z"
    by simp
  then have "round64 z - z = - ((?m - of_int (rne ?m)) * ?q)"
    by (simp add: round64_def Let_def left_diff_distrib)
  moreover have "\<bar>- ((?m - of_int (rne ?m)) * ?q)\<bar> = \<bar>?m - of_int (rne ?m)\<bar> * ?q"
    by (simp add: abs_mult abs_of_pos [OF q])
  ultimately show ?thesis by simp
qed

lemma expo_small:
  assumes "0 \<le> z" "z < pow2 52"
  shows "expo z \<le> 51"
proof (cases "z = 0")
  case True
  then show ?thesis
    by (simp add: expo_def rawexp_def bitlen.simps [of "- 1"])
next
  case False
  have "rawexp z \<le> 51"
  proof (rule ccontr)
    assume "\<not> rawexp z \<le> 51"
    then have "52 \<le> rawexp z" by simp
    then have "pow2 52 \<le> pow2 (rawexp z)" by (rule pow2_mono)
    moreover have "pow2 (rawexp z) \<le> \<bar>z\<bar>" using rawexp_bounds [OF False] by simp
    ultimately show False using assms by simp
  qed
  then show ?thesis by (simp add: expo_rawexp)
qed

lemma round64_quarter:
  assumes "0 \<le> z" "z < pow2 52"
  shows "\<bar>round64 z - z\<bar> \<le> 1 / 4"
proof -
  have "expo z - 52 \<le> - 1" using expo_small [OF assms] by simp
  then have "pow2 (expo z - 52) \<le> pow2 (- 1)" by (rule pow2_mono)
  moreover have "pow2 (- 1) = 1 / 2" by (simp add: pow2_def)
  ultimately show ?thesis using round64_error [of z] by simp
qed

lemma round64_step:
  assumes "0 \<le> y" "y + 1 < pow2 52"
  shows "round64 y < round64 (y + 1)"
proof -
  have "y < pow2 52" using assms(2) by linarith
  then have "\<bar>round64 y - y\<bar> \<le> 1 / 4"
    using assms(1) by (rule round64_quarter [rotated])
  moreover have "0 \<le> y + 1" using assms(1) by linarith
  then have "\<bar>round64 (y + 1) - (y + 1)\<bar> \<le> 1 / 4"
    using assms(2) by (rule round64_quarter)
  ultimately show ?thesis by linarith
qed

lemma Seconds_strict:
  assumes "0 \<le> a" "a + Second \<le> b" "b < 2 ^ 63"
  shows "Seconds a < Seconds b"
proof -
  let ?G = "1000000000 :: int"
  let ?f = "\<lambda>d. round64 (of_int (d mod ?G) / 1000000000)"
  let ?y = "\<lambda>d. (of_int (d div ?G) :: rat) + ?f d"
  have ab: "a + ?G \<le> b" using assms(2) by (simp add: Second_def)
  have fr: "\<And>d. 0 \<le> ?f d \<and> ?f d \<le> 1"
  proof -
    fix d :: int
    have "0 \<le> d mod ?G" "d mod ?G < ?G" by simp_all
    then have "(0::rat) \<le> of_int (d mod ?G) / 1000000000" "(of_int (d mod ?G) :: rat) / 1000000000 \<le> 1"
      by simp_all
    then show "0 \<le> ?f d \<and> ?f d \<le> 1"
      using round64_nonneg [of "of_int (d mod ?G) / 1000000000"]
        round64_mono [of "of_int (d mod ?G) / 1000000000" 1]
      by (simp add: round64_one)
  qed
  have dv: "(a + ?G) div ?G = a div ?G + 1" "(a + ?G) mod ?G = a mod ?G"
    by simp_all
  have step: "?y a + 1 \<le> ?y b"
  proof (cases "b div ?G = a div ?G + 1")
    case True
    have "(a + ?G) div ?G = b div ?G" using True dv by simp
    then have "(a + ?G) mod ?G \<le> b mod ?G"
      using ab by (metis add_le_cancel_left mult_div_mod_eq)
    then have "(of_int (a mod ?G) :: rat) / 1000000000 \<le> of_int (b mod ?G) / 1000000000"
      using dv by (simp add: divide_right_mono)
    then have "?f a \<le> ?f b" by (rule round64_mono)
    then show ?thesis using True by simp
  next
    case False
    have "(a + ?G) div ?G \<le> b div ?G" using ab by (rule zdiv_mono1) simp
    then have "a div ?G + 2 \<le> b div ?G" using False dv by simp
    then have "(of_int (a div ?G) :: rat) + 2 \<le> of_int (b div ?G)"
      by (metis of_int_add of_int_le_iff of_int_numeral)
    then show ?thesis using fr [of a] fr [of b] by linarith
  qed
  have a0: "0 \<le> ?y a"
    using assms(1) fr [of a] by (simp add: pos_imp_zdiv_nonneg_iff)
  have "a div ?G \<le> 9223372036"
    using assms ab by simp
  then have "(of_int (a div ?G) :: rat) \<le> 9223372036"
    by (metis of_int_le_iff of_int_numeral)
  then have "?y a + 1 < pow2 52"
    using fr [of a] by (simp add: pow2_def)
  then have "round64 (?y a) < round64 (?y a + 1)"
    using a0 by (simp only: round64_step)
  also have "\<dots> \<le> round64 (?y b)"
    using step by (rule round64_mono)
  finally show ?thesis
    using assms ab by (simp add: Seconds_nonneg_eq)
qed

subsection \<open>A required tunnel that cannot be created\<close>

text \<open>
  C1. The status is REQUIRED and the tunnel client reports the tunnel closed. Creation
  fails at the base64 decoding, at the decryption, or in the client's create call; in
  the last case the client is taken to leave its tunnel closed when it refuses. Then
  poll returns that error, the iteration adds no event of the schedule, log, cadence or
  stack steps, the cadence and the goroutines are as before, the tunnel is still
  closed and \<^verbatim>\<open>lastActivity\<close> is unchanged.
\<close>

theorem poll_tunnel_creation_failure:
  assumes tc: "tunnelClient s = Some tc"
    and fetch: "GetEnvironmentStatus (portainerClient s) (world s) = (Inr r, w)"
    and req: "Status r = ''REQUIRED''"
    and closed: "\<not> IsTunnelOpen tc w"
    and fails:
      "DecodeString L (Credentials r) = Inl err
       \<or> (\<exists>dec. DecodeString L (Credentials r) = Inr dec \<and> Decrypt L dec (edgeID s) = Inl err)
       \<or> (\<exists>dec cred. DecodeString L (Credentials r) = Inr dec
             \<and> Decrypt L dec (edgeID s) = Inr cred
             \<and> fst (CreateTunnel tc (newTunnelConfig s cred (Port r)) w) = Some err
             \<and> \<not> IsTunnelOpen tc (snd (CreateTunnel tc (newTunnelConfig s cred (Port r)) w)))"
  shows "fst (poll L now s) = Some err
         \<and> filter isConvergence (newEvents s (snd (poll L now s))) = []
         \<and> pollIntervalInSeconds (snd (poll L now s)) = pollIntervalInSeconds s
         \<and> goroutines (snd (poll L now s)) = goroutines s
         \<and> \<not> IsTunnelOpen tc (world (snd (poll L now s)))
         \<and> lastActivity (snd (poll L now s)) = lastActivity s"
proof -
  let ?s1 = "s\<lparr>world := w,
               trace := trace s @ [CallGetEnvironmentStatus, Log DEBUG ''status'' None]\<rparr>"
  let ?s3 = "?s1\<lparr>trace := trace ?s1 @ [CallIsTunnelOpen,
                     Log DEBUG ''Required status detected, creating reverse tunnel'' None]\<rparr>"
  have p: "poll L now s =
        (case fst (pollTunnel L now r ?s1) of
           Some err \<Rightarrow> (Some err, snd (pollTunnel L now r ?s1))
         | None \<Rightarrow> pollStacks r (pollCadence r (pollSchedules r (snd (pollTunnel L now r ?s1)))))"
    using poll_fetch_ok [OF fetch] by (simp add: Let_def fetched_def emit_def)
  have t: "pollTunnel L now r ?s1 =
     (let c = createTunnel L now (Credentials r) (Port r) ?s3
      in (case fst c of
            Some err \<Rightarrow> (Some err, emit (Log ERROR ''Unable to create tunnel'' (Some err)) (snd c))
          | None \<Rightarrow> (None, snd c)))"
    using pollTunnel_required_closed [of ?s1 tc r L now] tc req closed by simp
  from fails consider
      (decode) "DecodeString L (Credentials r) = Inl err"
    | (decrypt) dec where "DecodeString L (Credentials r) = Inr dec"
        "Decrypt L dec (edgeID s) = Inl err"
    | (create) dec cred where "DecodeString L (Credentials r) = Inr dec"
        "Decrypt L dec (edgeID s) = Inr cred"
        "fst (CreateTunnel tc (newTunnelConfig s cred (Port r)) w) = Some err"
        "\<not> IsTunnelOpen tc (snd (CreateTunnel tc (newTunnelConfig s cred (Port r)) w))"
    by blast
  then show ?thesis
  proof cases
    case decode
    have "createTunnel L now (Credentials r) (Port r) ?s3 = (Some err, ?s3)"
      using createTunnel_decode_fail [of ?s3 tc L "Credentials r" err now "Port r"] tc decode
      by simp
    with p t closed show ?thesis
      by (simp add: emit_def newEvents_def isConvergence_def)
  next
    case decrypt
    have "createTunnel L now (Credentials r) (Port r) ?s3 = (Some err, ?s3)"
      using createTunnel_decrypt_fail [of ?s3 tc L "Credentials r" dec err now "Port r"]
        tc decrypt
      by simp
    with p t closed show ?thesis
      by (simp add: emit_def newEvents_def isConvergence_def)
  next
    case create
    have "createTunnel L now (Credentials r) (Port r) ?s3 =
            (Some err, ?s3\<lparr>world := snd (CreateTunnel tc (newTunnelConfig s cred (Port r)) w),
                           trace := trace ?s3 @ [CallCreateTunnel (newTunnelConfig s cred (Port r))]\<rparr>)"
      using createTunnel_create_fail [of ?s3 tc L "Credentials r" dec cred "Port r" err now]
        tc create
      by simp
    with p t create(4) show ?thesis
      by (simp add: emit_def newEvents_def isConvergence_def)
  qed
qed

theorem poll_tunnel_creation_failure_witness:
  "fst (poll exLibs 1000
         (exSystem (Inr (exResponse ''REQUIRED'' 0 None)) (Some (exTunnel False)) False))
     = Some (Error ''refused'')
   \<and> filter isConvergence
         (newEvents (exSystem (Inr (exResponse ''REQUIRED'' 0 None)) (Some (exTunnel False)) False)
            (snd (poll exLibs 1000
               (exSystem (Inr (exResponse ''REQUIRED'' 0 None)) (Some (exTunnel False)) False)))) = []
   \<and> \<not> world (snd (poll exLibs 1000
               (exSystem (Inr (exResponse ''REQUIRED'' 0 None)) (Some (exTunnel False)) False)))
   \<and> lastActivity (snd (poll exLibs 1000
               (exSystem (Inr (exResponse ''REQUIRED'' 0 None)) (Some (exTunnel False)) False))) = 0"
proof -
  let ?r = "exResponse ''REQUIRED'' 0 None"
  let ?s = "exSystem (Inr ?r) (Some (exTunnel False)) False"
  have h1: "tunnelClient ?s = Some (exTunnel False)"
    by (simp add: exSystem_def)
  have h2: "GetEnvironmentStatus (portainerClient ?s) (world ?s) = (Inr ?r, False)"
    by (simp add: exSystem_def exClient_def)
  have h3: "Status ?r = ''REQUIRED''"
    by (simp add: exResponse_def)
  have h4: "\<not> IsTunnelOpen (exTunnel False) False"
    by (simp add: exTunnel_def)
  have h5: "DecodeString exLibs (Credentials ?r) = Inl (Error ''refused'')
       \<or> (\<exists>dec. DecodeString exLibs (Credentials ?r) = Inr dec
               \<and> Decrypt exLibs dec (edgeID ?s) = Inl (Error ''refused''))
       \<or> (\<exists>dec cred. DecodeString exLibs (Credentials ?r) = Inr dec
             \<and> Decrypt exLibs dec (edgeID ?s) = Inr cred
             \<and> fst (CreateTunnel (exTunnel False) (newTunnelConfig ?s cred (Port ?r)) False)
                   = Some (Error ''refused'')
             \<and> \<not> IsTunnelOpen (exTunnel False)
                   (snd (CreateTunnel (exTunnel False) (newTunnelConfig ?s cred (Port ?r)) False)))"
    by (simp add: exLibs_def exResponse_def exTunnel_def)
  show ?thesis
    using poll_tunnel_creation_failure [OF h1 h2 h3 h4 h5, of 1000]
    by (simp add: exTunnel_def exSystem_def)
qed

subsection \<open>A status fetch that fails\<close>

text \<open>
  C9. When the status fetch fails, poll returns the fetch error at once: the only event
  is the fetch itself, and nothing of the system changes but the outside state as the
  fetch left it. The poll loop that took the tick logs the error and is back before
  its select, still running.
\<close>

theorem poll_fetch_failure:
  assumes fetch: "fst (GetEnvironmentStatus (portainerClient s) (world s)) = Inl err"
    and i: "i < length (goroutines s)"
    and loop: "goroutines s ! i = PollLoop d (Waiting c)"
  shows "poll L now s =
           (Some err, s\<lparr>world := snd (GetEnvironmentStatus (portainerClient s) (world s)),
                         trace := trace s @ [CallGetEnvironmentStatus]\<rparr>)
         \<and> step L (Tick i now) s =
             Done (s\<lparr>world := snd (GetEnvironmentStatus (portainerClient s) (world s)),
                      trace := trace s @ [CallGetEnvironmentStatus,
                                Log ERROR ''an error occured during short poll'' (Some err)],
                      goroutines := (goroutines s)[i := PollLoop d AtSelect]\<rparr>)"
  using poll_fetch_fails [OF fetch, of L now] i loop
  by (simp add: step_def pollLoopTick_def emit_def setGoroutine_def)

theorem poll_fetch_failure_witness:
  "poll exLibs 1000 ((exSystem (Inl (Error ''timeout'')) None False)
       \<lparr>goroutines := [PollLoop 5000000000 (Waiting (Some 0))]\<rparr>) =
     (Some (Error ''timeout''),
      (exSystem (Inl (Error ''timeout'')) None False)
        \<lparr>trace := [CallGetEnvironmentStatus],
          goroutines := [PollLoop 5000000000 (Waiting (Some 0))]\<rparr>)
   \<and> step exLibs (Tick 0 1000) ((exSystem (Inl (Error ''timeout'')) None False)
       \<lparr>goroutines := [PollLoop 5000000000 (Waiting (Some 0))]\<rparr>) =
     Done ((exSystem (Inl (Error ''timeout'')) None False)
        \<lparr>trace := [CallGetEnvironmentStatus,
                    Log ERROR ''an error occured during short poll'' (Some (Error ''timeout''))],
          goroutines := [PollLoop 5000000000 AtSelect]\<rparr>)"
proof -
  let ?s = "(exSystem (Inl (Error ''timeout'')) None False)
              \<lparr>goroutines := [PollLoop 5000000000 (Waiting (Some 0))]\<rparr>"
  have h1: "fst (GetEnvironmentStatus (portainerClient ?s) (world ?s)) = Inl (Error ''timeout'')"
    by (simp add: exSystem_def exClient_def)
  have h2: "0 < length (goroutines ?s)"
    by (simp add: exSystem_def)
  have h3: "goroutines ?s ! 0 = PollLoop 5000000000 (Waiting (Some 0))"
    by (simp add: exSystem_def)
  show ?thesis
    using poll_fetch_failure [OF h1 h2 h3, of exLibs 1000]
    by (simp add: exSystem_def exClient_def)
qed

subsection \<open>Cadence adaptation\<close>

text \<open>
  C2, as the code has it. For every status response: the iteration sets
  \<^verbatim>\<open>pollIntervalInSeconds\<close> to the received value, calls \<^verbatim>\<open>SetTimeout\<close> exactly once
  and launches exactly one restart goroutine exactly when the received interval is
  positive, differs from the current one and the tunnel step did not end the
  iteration with an error; otherwise none of the three happens.
\<close>

theorem poll_cadence_change:
  assumes fetch: "GetEnvironmentStatus (portainerClient s) (world s) = (Inr r, w)"
  shows "if CheckinInterval r > 0 \<and> CheckinInterval r \<noteq> pollIntervalInSeconds s
            \<and> fst (pollTunnel L now r (fetched w s)) = None
         then pollIntervalInSeconds (snd (poll L now s)) = CheckinInterval r
            \<and> filter isSetTimeout (newEvents s (snd (poll L now s))) =
                [CallSetTimeout (wrap64 (Duration_of_float64 (CheckinInterval r) * Second))]
            \<and> filter isRestart (newEvents s (snd (poll L now s))) = [GoRestartStatusPollLoop]
            \<and> goroutines (snd (poll L now s)) = goroutines s @ [RestartCall False]
         else pollIntervalInSeconds (snd (poll L now s)) = pollIntervalInSeconds s
            \<and> filter isSetTimeout (newEvents s (snd (poll L now s))) = []
            \<and> filter isRestart (newEvents s (snd (poll L now s))) = []
            \<and> goroutines (snd (poll L now s)) = goroutines s"
proof -
  let ?f = "fetched w s"
  let ?t = "snd (pollTunnel L now r ?f)"
  let ?c = "snd (pollStacks r (pollCadence r (pollSchedules r ?t)))"
  have ft: "newEvents s ?t = newEvents s ?f @ newEvents ?f ?t"
    by (rule newEvents_trans(1) [OF fetched_trace(1) pollTunnel_trace])
  have tt: "trace ?t = trace s @ newEvents s ?t"
    by (rule newEvents_trans(2) [OF fetched_trace(1) pollTunnel_trace])
  have nt: "filter isConvergence (newEvents s ?t) = []"
    using pollTunnel_noconv [of ?f L now r]
    by (simp add: ft fetched_trace(2) isConvergence_def)
  show ?thesis
  proof (cases "fst (pollTunnel L now r ?f)")
    case (Some err)
    then have "snd (poll L now s) = ?t"
      using poll_fetch_ok [OF fetch, of L now] by (simp add: Let_def)
    then show ?thesis
      using Some filter_conv_empty [OF nt] by (simp add: pollTunnel_fields fetched_trace)
  next
    case None
    then have p: "snd (poll L now s) = ?c"
      using poll_fetch_ok [OF fetch, of L now] by (simp add: Let_def)
    have ec: "newEvents s ?c = newEvents s ?t @ newEvents ?t ?c"
      by (rule newEvents_trans(1) [OF tt converge_trace])
    show ?thesis
      using None filter_conv_empty [OF nt]
      by (simp add: p ec converge_cadence pollTunnel_fields fetched_trace)
  qed
qed

theorem poll_cadence_change_witness:
  "pollIntervalInSeconds (snd (poll exLibs 1000
       (exSystem (Inr (exResponse ''IDLE'' 10 None)) None False))) = 10
   \<and> filter isSetTimeout (newEvents (exSystem (Inr (exResponse ''IDLE'' 10 None)) None False)
         (snd (poll exLibs 1000 (exSystem (Inr (exResponse ''IDLE'' 10 None)) None False))))
       = [CallSetTimeout 10000000000]
   \<and> filter isRestart (newEvents (exSystem (Inr (exResponse ''IDLE'' 10 None)) None False)
         (snd (poll exLibs 1000 (exSystem (Inr (exResponse ''IDLE'' 10 None)) None False))))
       = [GoRestartStatusPollLoop]
   \<and> goroutines (snd (poll exLibs 1000
       (exSystem (Inr (exResponse ''IDLE'' 10 None)) None False))) = [RestartCall False]"
proof -
  let ?r = "exResponse ''IDLE'' 10 None"
  let ?s = "exSystem (Inr ?r) None False"
  have h: "GetEnvironmentStatus (portainerClient ?s) (world ?s) = (Inr ?r, False)"
    by (simp add: exSystem_def exClient_def)
  have c: "CheckinInterval ?r > 0 \<and> CheckinInterval ?r \<noteq> pollIntervalInSeconds ?s
             \<and> fst (pollTunnel exLibs 1000 ?r (fetched False ?s)) = None"
    by (simp add: exSystem_def exResponse_def pollTunnel_def fetched_def emit_def)
  have d: "wrap64 (Duration_of_float64 (CheckinInterval ?r) * Second) = 10000000000"
    by (simp add: exResponse_def Duration_of_float64_def Second_def wrap64_def)
  show ?thesis
    using poll_cadence_change [OF h, of exLibs 1000] c d
    by (simp add: exSystem_def exResponse_def)
qed

text \<open>
  The claim as it was stated fails on an iteration that a refused tunnel ends early:
  the received interval 10 is positive and differs from the current 5, yet the cadence
  stays 5 and there is neither a timeout call nor a restart.
\<close>

theorem poll_cadence_change_counterexample:
  "CheckinInterval (exResponse ''REQUIRED'' 10 None) > 0
   \<and> CheckinInterval (exResponse ''REQUIRED'' 10 None)
        \<noteq> pollIntervalInSeconds (exSystem (Inr (exResponse ''REQUIRED'' 10 None)) (Some (exTunnel False)) False)
   \<and> pollIntervalInSeconds (snd (poll exLibs 1000
          (exSystem (Inr (exResponse ''REQUIRED'' 10 None)) (Some (exTunnel False)) False))) = 5
   \<and> filter isSetTimeout (trace (snd (poll exLibs 1000
          (exSystem (Inr (exResponse ''REQUIRED'' 10 None)) (Some (exTunnel False)) False)))) = []
   \<and> filter isRestart (trace (snd (poll exLibs 1000
          (exSystem (Inr (exResponse ''REQUIRED'' 10 None)) (Some (exTunnel False)) False)))) = []"
proof -
  let ?r = "exResponse ''REQUIRED'' 10 None"
  let ?s = "exSystem (Inr ?r) (Some (exTunnel False)) False"
  have h1: "tunnelClient ?s = Some (exTunnel False)"
    by (simp add: exSystem_def)
  have h2: "GetEnvironmentStatus (portainerClient ?s) (world ?s) = (Inr ?r, False)"
    by (simp add: exSystem_def exClient_def)
  have h3: "Status ?r = ''REQUIRED''"
    by (simp add: exResponse_def)
  have h4: "\<not> IsTunnelOpen (exTunnel False) False"
    by (simp add: exTunnel_def)
  have h5: "DecodeString exLibs (Credentials ?r) = Inr ''abc''"
    by (simp add: exLibs_def exResponse_def)
  have h6: "Decrypt exLibs ''abc'' (edgeID ?s) = Inr ''abc''"
    by (simp add: exLibs_def)
  have h7: "fst (CreateTunnel (exTunnel False) (newTunnelConfig ?s ''abc'' (Port ?r)) False)
              = Some (Error ''refused'')"
    by (simp add: exTunnel_def)
  show ?thesis
    using poll_create_refused [OF h1 h2 h3 h4 h5 h6 h7, of 1000]
    by (simp add: exSystem_def exResponse_def isSetTimeout_def isRestart_def)
qed

subsection \<open>Stack convergence\<close>

text \<open>
  C5, as the code has it. A response whose stack list is nil leads to no call of the
  stack-status updater. A response that carries a list, empty or not, leads to exactly
  one call, with the map built from the list, unless the tunnel step ended the
  iteration with an error, and then to none. The map of the empty list is empty; the
  keys of the map are the listed ids, and where the ids are distinct each id is mapped
  to the version listed with it.
\<close>

theorem poll_stacks_update:
  assumes fetch: "GetEnvironmentStatus (portainerClient s) (world s) = (Inr r, w)"
  shows "filter isUpdateStacks (newEvents s (snd (poll L now s))) =
           (case Stacks r of
              None \<Rightarrow> []
            | Some sts \<Rightarrow>
                if fst (pollTunnel L now r (fetched w s)) = None
                then [CallUpdateStacksStatus (stacksMap sts)] else [])
         \<and> stacksMap [] = Map.empty
         \<and> dom (stacksMap xs) = StackID ` set xs
         \<and> (distinct (map StackID xs) \<longrightarrow>
               (\<forall>st \<in> set xs. stacksMap xs (StackID st) = Some (Version st)))"
  using poll_update_events [OF fetch, of L now] stacksMap_empty stacksMap_dom [of xs]
    stacksMap_distinct [of xs]
  by blast

theorem poll_stacks_update_witness:
  "filter isUpdateStacks
     (newEvents (exSystem (Inr (exResponse ''IDLE'' 0 (Some []))) None False)
        (snd (poll exLibs 1000 (exSystem (Inr (exResponse ''IDLE'' 0 (Some []))) None False))))
     = [CallUpdateStacksStatus Map.empty]
   \<and> stacksMap [\<lparr>StackID = 4, Version = 2\<rparr>, \<lparr>StackID = 7, Version = 1\<rparr>] 7 = Some 1"
proof -
  let ?r = "exResponse ''IDLE'' 0 (Some [])"
  let ?s = "exSystem (Inr ?r) None False"
  let ?xs = "[\<lparr>StackID = 4, Version = 2\<rparr>, \<lparr>StackID = 7, Version = 1\<rparr>]"
  have h: "GetEnvironmentStatus (portainerClient ?s) (world ?s) = (Inr ?r, False)"
    by (simp add: exSystem_def exClient_def)
  have c: "fst (pollTunnel exLibs 1000 ?r (fetched False ?s)) = None"
    by (simp add: exSystem_def pollTunnel_def fetched_def emit_def)
  have d: "distinct (map StackID ?xs)" "\<lparr>StackID = 7, Version = 1\<rparr> \<in> set ?xs"
    by simp_all
  show ?thesis
    using poll_stacks_update [OF h, of exLibs 1000 ?xs] c d
    by (simp add: exResponse_def)
qed


text \<open>
  The claim as it was stated fails on an iteration that a refused tunnel ends early:
  the stack list is present and empty, and the updater is not called.
\<close>

theorem poll_stacks_update_counterexample:
  "Stacks (exResponse ''REQUIRED'' 0 (Some [])) = Some []
   \<and> filter isUpdateStacks (trace (snd (poll exLibs 1000
          (exSystem (Inr (exResponse ''REQUIRED'' 0 (Some []))) (Some (exTunnel False)) False)))) = []"
proof -
  let ?r = "exResponse ''REQUIRED'' 0 (Some [])"
  let ?s = "exSystem (Inr ?r) (Some (exTunnel False)) False"
  have h1: "tunnelClient ?s = Some (exTunnel False)"
    by (simp add: exSystem_def)
  have h2: "GetEnvironmentStatus (portainerClient ?s) (world ?s) = (Inr ?r, False)"
    by (simp add: exSystem_def exClient_def)
  have h3: "Status ?r = ''REQUIRED''"
    by (simp add: exResponse_def)
  have h4: "\<not> IsTunnelOpen (exTunnel False) False"
    by (simp add: exTunnel_def)
  have h5: "DecodeString exLibs (Credentials ?r) = Inr ''abc''"
    by (simp add: exLibs_def exResponse_def)
  have h6: "Decrypt exLibs ''abc'' (edgeID ?s) = Inr ''abc''"
    by (simp add: exLibs_def)
  have h7: "fst (CreateTunnel (exTunnel False) (newTunnelConfig ?s ''abc'' (Port ?r)) False)
              = Some (Error ''refused'')"
    by (simp add: exTunnel_def)
  show ?thesis
    using poll_create_refused [OF h1 h2 h3 h4 h5 h6 h7, of 1000]
    by (simp add: exSystem_def exResponse_def isUpdateStacks_def)
qed


text \<open>
  C10. When two entries of the stack list carry the same id, the later of them the last
  one with that id, the only map the iteration hands to the stack-status updater maps
  that id to the version of the later entry, and has fewer keys than the list has
  entries.
\<close>

theorem poll_stacks_duplicate_id:
  assumes fetch: "GetEnvironmentStatus (portainerClient s) (world s) = (Inr r, w)"
    and stacks: "Stacks r = Some sts"
    and dup: "i < j" "j < length sts" "StackID (sts ! i) = StackID (sts ! j)"
    and last: "\<forall>k. j < k \<and> k < length sts \<longrightarrow> StackID (sts ! k) \<noteq> StackID (sts ! j)"
  shows "filter isUpdateStacks (newEvents s (snd (poll L now s))) =
           (if fst (pollTunnel L now r (fetched w s)) = None
            then [CallUpdateStacksStatus (stacksMap sts)] else [])
         \<and> stacksMap sts (StackID (sts ! j)) = Some (Version (sts ! j))
         \<and> card (dom (stacksMap sts)) < length sts"
  using poll_update_events [OF fetch, of L now] stacks stacksMap_last [OF dup(2) last]
    stacksMap_card [OF dup]
  by simp

theorem poll_stacks_duplicate_id_witness:
  "filter isUpdateStacks
     (newEvents (exSystem (Inr (exResponse ''IDLE'' 0
          (Some [\<lparr>StackID = 3, Version = 1\<rparr>, \<lparr>StackID = 3, Version = 2\<rparr>]))) None False)
        (snd (poll exLibs 1000 (exSystem (Inr (exResponse ''IDLE'' 0
          (Some [\<lparr>StackID = 3, Version = 1\<rparr>, \<lparr>StackID = 3, Version = 2\<rparr>]))) None False))))
     = [CallUpdateStacksStatus
          (stacksMap [\<lparr>StackID = 3, Version = 1\<rparr>, \<lparr>StackID = 3, Version = 2\<rparr>])]
   \<and> stacksMap [\<lparr>StackID = 3, Version = 1\<rparr>, \<lparr>StackID = 3, Version = 2\<rparr>] 3 = Some 2
   \<and> card (dom (stacksMap [\<lparr>StackID = 3, Version = 1\<rparr>, \<lparr>StackID = 3, Version = 2\<rparr>])) < 2"
proof -
  let ?sts = "[\<lparr>StackID = 3, Version = 1\<rparr>, \<lparr>StackID = 3, Version = 2\<rparr>]"
  let ?r = "exResponse ''IDLE'' 0 (Some ?sts)"
  let ?s = "exSystem (Inr ?r) None False"
  have h: "GetEnvironmentStatus (portainerClient ?s) (world ?s) = (Inr ?r, False)"
    by (simp add: exSystem_def exClient_def)
  have st: "Stacks ?r = Some ?sts"
    by (simp add: exResponse_def)
  have d: "(0::nat) < 1" "1 < length ?sts" "StackID (?sts ! 0) = StackID (?sts ! 1)"
    by simp_all
  have l: "\<forall>k. 1 < k \<and> k < length ?sts \<longrightarrow> StackID (?sts ! k) \<noteq> StackID (?sts ! 1)"
    by simp
  have c: "fst (pollTunnel exLibs 1000 ?r (fetched False ?s)) = None"
    by (simp add: exSystem_def pollTunnel_def fetched_def emit_def)
  show ?thesis
    using poll_stacks_duplicate_id [OF h st d l, of exLibs 1000] c
    by simp
qed

subsection \<open>The activity monitor never opens a tunnel\<close>

text \<open>
  C7. Over any series of ticks the monitoring loop never calls the tunnel client's
  create operation; and as long as \<^verbatim>\<open>lastActivity\<close> is the zero time, any number of
  ticks leaves the whole system as it is: no close is attempted, nothing is logged,
  nothing changes.
\<close>

theorem monitor_never_opens:
  "filter isCreateTunnel (newEvents s (monitorTicks nows s)) = []
   \<and> (IsZero (lastActivity s) \<longrightarrow> monitorTicks nows s = s)"
  using monitorTicks_trace [of nows s] monitorTicks_zero [of s nows] by blast

theorem monitor_never_opens_witness:
  "filter isCreateTunnel
     (newEvents (exSystem (Inl (Error ''timeout'')) (Some (exTunnel True)) False)
        (monitorTicks [30000000000, 60000000000, 90000000000]
           (exSystem (Inl (Error ''timeout'')) (Some (exTunnel True)) False))) = []
   \<and> monitorTicks [30000000000, 60000000000, 90000000000]
        (exSystem (Inl (Error ''timeout'')) (Some (exTunnel True)) False)
       = exSystem (Inl (Error ''timeout'')) (Some (exTunnel True)) False"
proof -
  have "IsZero (lastActivity (exSystem (Inl (Error ''timeout'')) (Some (exTunnel True)) False))"
    by (simp add: IsZero_def exSystem_def)
  then show ?thesis
    using monitor_never_opens [of "exSystem (Inl (Error ''timeout'')) (Some (exTunnel True)) False"
        "[30000000000, 60000000000, 90000000000]"]
    by blast
qed


subsection \<open>The period of the ticker\<close>

text \<open>
  C3 does not hold of the code. \<^verbatim>\<open>time.Duration(f) * time.Second\<close> converts the
  float64 to an integer before it multiplies, which discards the fraction. A poll
  interval of 1.5 seconds gives a ticker of one second, one of 0.5 seconds gives the
  period 0, on which \<^verbatim>\<open>time.NewTicker\<close> panics, and a received interval of 1.5
  seconds sets a timeout of one second.
\<close>

theorem ticker_period_truncated:
  "startStatusPollLoop ((exSystem (Inl (Error ''timeout'')) None False)\<lparr>pollIntervalInSeconds := 3 / 2\<rparr>)
     = Done ((exSystem (Inl (Error ''timeout'')) None False)
          \<lparr>pollIntervalInSeconds := 3 / 2,
            trace := [Log DEBUG ''starting Portainer short-polling client'' None],
            goroutines := [PollLoop 1000000000 AtSelect]\<rparr>)
   \<and> startStatusPollLoop ((exSystem (Inl (Error ''timeout'')) None False)\<lparr>pollIntervalInSeconds := 1 / 2\<rparr>)
     = Panic ''non-positive interval for NewTicker''
   \<and> filter isSetTimeout
       (trace (pollCadence (exResponse ''IDLE'' (3 / 2) None)
          (exSystem (Inl (Error ''timeout'')) None False))) = [CallSetTimeout 1000000000]"
  by (simp add: startStatusPollLoop_def pollCadence_def emit_def exSystem_def exResponse_def
        Duration_of_float64_def floor_three_halves wrap64_def Second_def isSetTimeout_def)

subsection \<open>Where lastActivity is assigned\<close>

lemma resetActivityTimer_lastActivity:
  "lastActivity (resetActivityTimer now s) =
     (case tunnelClient s of
        None \<Rightarrow> lastActivity s
      | Some tc \<Rightarrow> if IsTunnelOpen tc (world s) then now else lastActivity s)"
  by (simp add: resetActivityTimer_def emit_def Let_def split: option.split)

lemma createTunnel_lastActivity:
  "lastActivity (snd (createTunnel L now enc port s)) = lastActivity s
   \<or> (fst (createTunnel L now enc port s) = None
       \<and> (\<exists>tc. tunnelClient s = Some tc
               \<and> IsTunnelOpen tc (world (snd (createTunnel L now enc port s))))
       \<and> lastActivity (snd (createTunnel L now enc port s)) = now)"
  by (simp add: createTunnel_def resetActivityTimer_def emit_def Let_def
        split: option.split sum.split)

lemma converge_lastActivity:
  "lastActivity (snd (pollStacks r (pollCadence r (pollSchedules r s)))) = lastActivity s"
  by (simp add: pollStacks_def pollCadence_def pollSchedules_def emit_def Let_def
        split: option.split)

lemma fetched_lastActivity: "lastActivity (fetched w s) = lastActivity s"
  by (simp add: fetched_def emit_def)

lemma poll_trace: "trace (snd (poll L now s)) = trace s @ newEvents s (snd (poll L now s))"
proof (cases "GetEnvironmentStatus (portainerClient s) (world s)")
  case (Pair a w)
  show ?thesis
  proof (cases a)
    case (Inl err)
    then show ?thesis
      using poll_fetch_fails [of s err L now] Pair by (simp add: newEvents_def)
  next
    case (Inr r)
    let ?f = "fetched w s"
    let ?t = "snd (pollTunnel L now r ?f)"
    let ?c = "snd (pollStacks r (pollCadence r (pollSchedules r ?t)))"
    have fetch: "GetEnvironmentStatus (portainerClient s) (world s) = (Inr r, w)"
      using Pair Inr by simp
    have tt: "trace ?t = trace s @ newEvents s ?t"
      by (rule newEvents_trans(2) [OF fetched_trace(1) pollTunnel_trace])
    have cc: "trace ?c = trace s @ newEvents s ?c"
      by (rule newEvents_trans(2) [OF tt converge_trace])
    show ?thesis
      using poll_fetch_ok [OF fetch, of L now] tt cc
      by (cases "fst (pollTunnel L now r ?f)") (simp_all add: Let_def)
  qed
qed

lemma poll_lastActivity:
  assumes "lastActivity (snd (poll L now s)) \<noteq> lastActivity s"
  shows "filter isCreateTunnel (newEvents s (snd (poll L now s))) \<noteq> []"
proof (cases "GetEnvironmentStatus (portainerClient s) (world s)")
  case (Pair a w)
  show ?thesis
  proof (cases a)
    case (Inl err)
    then show ?thesis
      using poll_fetch_fails [of s err L now] Pair assms by simp
  next
    case (Inr r)
    let ?f = "fetched w s"
    let ?t = "snd (pollTunnel L now r ?f)"
    let ?c = "snd (pollStacks r (pollCadence r (pollSchedules r ?t)))"
    have fetch: "GetEnvironmentStatus (portainerClient s) (world s) = (Inr r, w)"
      using Pair Inr by simp
    have ft: "newEvents s ?t = newEvents s ?f @ newEvents ?f ?t"
      by (rule newEvents_trans(1) [OF fetched_trace(1) pollTunnel_trace])
    have tt: "trace ?t = trace s @ newEvents s ?t"
      by (rule newEvents_trans(2) [OF fetched_trace(1) pollTunnel_trace])
    have ec: "newEvents s ?c = newEvents s ?t @ newEvents ?t ?c"
      by (rule newEvents_trans(1) [OF tt converge_trace])
    have la: "lastActivity (snd (poll L now s)) = lastActivity ?t"
      using poll_fetch_ok [OF fetch, of L now]
      by (cases "fst (pollTunnel L now r ?f)") (simp_all add: Let_def converge_lastActivity)
    then have "lastActivity ?t \<noteq> lastActivity ?f"
      using assms by (simp add: fetched_lastActivity)
    then have "filter isCreateTunnel (newEvents ?f ?t) \<noteq> []"
      by (rule pollTunnel_lastActivity)
    then have "filter isCreateTunnel (newEvents s ?t) \<noteq> []"
      by (simp add: ft)
    then show ?thesis
      using poll_fetch_ok [OF fetch, of L now]
      by (cases "fst (pollTunnel L now r ?f)") (simp_all add: Let_def ec)
  qed
qed

lemma pollLoopTick_lastActivity_eq:
  "lastActivity (pollLoopTick L now s) = lastActivity (snd (poll L now s))"
  by (simp add: pollLoopTick_def emit_def Let_def split: option.split)

lemma pollLoopTick_lastActivity:
  assumes "lastActivity (pollLoopTick L now s) \<noteq> lastActivity s"
  shows "filter isCreateTunnel (newEvents s (pollLoopTick L now s)) \<noteq> []"
proof -
  have la: "lastActivity (pollLoopTick L now s) = lastActivity (snd (poll L now s))"
    by (simp add: pollLoopTick_def emit_def Let_def split: option.split)
  have "\<exists>ev. trace (pollLoopTick L now s) = trace (snd (poll L now s)) @ ev"
    by (simp add: pollLoopTick_def emit_def Let_def split: option.split)
  then obtain ev where "trace (pollLoopTick L now s) = trace s @ newEvents s (snd (poll L now s)) @ ev"
    using poll_trace [of L now s] by auto
  then have "newEvents s (pollLoopTick L now s) = newEvents s (snd (poll L now s)) @ ev"
    by (simp add: newEvents_def [of s "pollLoopTick L now s"])
  then show ?thesis
    using poll_lastActivity [of L now s] assms la by simp
qed

lemma monitorTick_lastActivity: "lastActivity (monitorTick now s) = lastActivity s"
  by (simp add: monitorTick_def emit_def Let_def split: option.split)

lemma lifecycle_lastActivity:
  "start s = Done x \<Longrightarrow> lastActivity (snd x) = lastActivity s"
  "stop s = Done x \<Longrightarrow> lastActivity (snd x) = lastActivity s"
  "restartStatusPollLoop s = Done s' \<Longrightarrow> lastActivity s' = lastActivity s"
  by (auto simp: start_def stop_def restartStatusPollLoop_def startStatusPollLoop_def
        startActivityMonitoringLoop_def makeChan_def emit_def Let_def
        split: option.splits result.splits if_splits)

lemma setGoroutine_fields [simp]:
  "lastActivity (setGoroutine i g s) = lastActivity s"
  "trace (setGoroutine i g s) = trace s"
  by (simp_all add: setGoroutine_def)

lemma newEvents_setGoroutine [simp]:
  "newEvents s (setGoroutine i g s') = newEvents s s'"
  by (simp add: newEvents_def)

lemma step_lastActivity:
  assumes "step L a s = Done s'" "lastActivity s' \<noteq> lastActivity s"
  shows "(\<exists>t. a = CallResetActivityTimer t)
         \<or> (\<exists>i t. a = Tick i t \<and> filter isCreateTunnel (newEvents s s') \<noteq> [])"
proof (cases a)
  case CallStart
  then show ?thesis
    using assms lifecycle_lastActivity(1) [of s]
    by (auto simp: step_def split: result.splits)
next
  case CallStop
  then show ?thesis
    using assms lifecycle_lastActivity(2) [of s]
    by (auto simp: step_def split: result.splits)
next
  case (CallResetActivityTimer t)
  then show ?thesis by blast
next
  case (EnterSelect i)
  then show ?thesis
    using assms
    by (auto simp: step_def split: if_splits goroutine.splits pc.splits)
next
  case (Tick i t)
  then show ?thesis
    using assms pollLoopTick_lastActivity [of L t s] monitorTick_lastActivity [of t s]
    by (auto simp: step_def split: if_splits goroutine.splits pc.splits)
next
  case (Refresh i)
  then show ?thesis
    using assms
    by (auto simp: step_def pollLoopRefresh_def emit_def split: if_splits goroutine.splits pc.splits)
next
  case (RunRestart i)
  then show ?thesis
    using assms lifecycle_lastActivity(3) [of s]
    by (auto simp: step_def split: if_splits goroutine.splits pc.splits bool.splits result.splits)
qed

lemma pollTunnel_create_ok:
  assumes tc: "tunnelClient s = Some tc"
    and req: "Status r = ''REQUIRED''"
    and closed: "\<not> IsTunnelOpen tc (world s)"
    and dec: "DecodeString L (Credentials r) = Inr dec"
    and cred: "Decrypt L dec (edgeID s) = Inr cred"
    and ok: "fst (CreateTunnel tc (newTunnelConfig s cred (Port r)) (world s)) = None"
    and isOpen: "IsTunnelOpen tc (snd (CreateTunnel tc (newTunnelConfig s cred (Port r)) (world s)))"
  shows "pollTunnel L now r s =
           (None,
            s\<lparr>world := snd (CreateTunnel tc (newTunnelConfig s cred (Port r)) (world s)),
              trace := trace s @
                [CallIsTunnelOpen,
                 Log DEBUG ''Required status detected, creating reverse tunnel'' None,
                 CallCreateTunnel (newTunnelConfig s cred (Port r)), CallIsTunnelOpen],
              lastActivity := now\<rparr>)"
proof -
  let ?s3 = "s\<lparr>trace := trace s @ [CallIsTunnelOpen,
                     Log DEBUG ''Required status detected, creating reverse tunnel'' None]\<rparr>"
  have "createTunnel L now (Credentials r) (Port r) ?s3 =
          (None,
            s\<lparr>world := snd (CreateTunnel tc (newTunnelConfig s cred (Port r)) (world s)),
              trace := trace s @
                [CallIsTunnelOpen,
                 Log DEBUG ''Required status detected, creating reverse tunnel'' None,
                 CallCreateTunnel (newTunnelConfig s cred (Port r)), CallIsTunnelOpen],
              lastActivity := now\<rparr>)"
    using tc dec cred ok isOpen
    by (simp add: createTunnel_def resetActivityTimer_def emit_def Let_def)
  then show ?thesis
    using pollTunnel_required_closed [OF tc req closed, of L now] by (simp add: Let_def)
qed


text \<open>
  C4, as the code has it. \<^verbatim>\<open>resetActivityTimer\<close> holds the only assignment to
  \<^verbatim>\<open>lastActivity\<close>, and makes it only when the tunnel client is not nil and reports
  the tunnel open. \<^verbatim>\<open>createTunnel\<close> changes \<^verbatim>\<open>lastActivity\<close> only when it
  succeeds, to the clock reading, with the tunnel reported open. Of all the steps of the
  system (start, stop, a loop entering its select, a tick of the poll loop or of the
  monitor, a loop shutting down, the restart), only two change \<^verbatim>\<open>lastActivity\<close>: a
  tick of the poll loop that calls the tunnel client's create operation, and a call
  of \<^verbatim>\<open>resetActivityTimer\<close> itself, the activity-reset hook of the service.
\<close>

theorem lastActivity_assignment:
  "lastActivity (resetActivityTimer now s) =
     (case tunnelClient s of
        None \<Rightarrow> lastActivity s
      | Some tc \<Rightarrow> if IsTunnelOpen tc (world s) then now else lastActivity s)
   \<and> (lastActivity (snd (createTunnel L now enc port s)) = lastActivity s
       \<or> (fst (createTunnel L now enc port s) = None
           \<and> (\<exists>tc. tunnelClient s = Some tc
                 \<and> IsTunnelOpen tc (world (snd (createTunnel L now enc port s))))
           \<and> lastActivity (snd (createTunnel L now enc port s)) = now))
   \<and> (case step L a s of
         Panic msg \<Rightarrow> True
       | Done s' \<Rightarrow>
           lastActivity s' = lastActivity s
           \<or> (\<exists>t. a = CallResetActivityTimer t)
           \<or> (\<exists>i t. a = Tick i t \<and> filter isCreateTunnel (newEvents s s') \<noteq> []))"
proof -
  have "case step L a s of
         Panic msg \<Rightarrow> True
       | Done s' \<Rightarrow>
           lastActivity s' = lastActivity s
           \<or> (\<exists>t. a = CallResetActivityTimer t)
           \<or> (\<exists>i t. a = Tick i t \<and> filter isCreateTunnel (newEvents s s') \<noteq> [])"
    using step_lastActivity [of L a s] by (cases "step L a s") auto
  then show ?thesis
    using resetActivityTimer_lastActivity [of now s] createTunnel_lastActivity [of L now enc port s]
    by blast
qed

theorem lastActivity_assignment_witness:
  "lastActivity
     ((exSystem (Inr (exResponse ''REQUIRED'' 0 None)) (Some (exTunnel True)) False)
        \<lparr>goroutines := [PollLoop 5000000000 (Waiting None)]\<rparr>) = 0
   \<and> (case step exLibs (Tick 0 1000)
           ((exSystem (Inr (exResponse ''REQUIRED'' 0 None)) (Some (exTunnel True)) False)
              \<lparr>goroutines := [PollLoop 5000000000 (Waiting None)]\<rparr>) of
         Panic msg \<Rightarrow> False
       | Done s' \<Rightarrow>
           lastActivity s' = 1000
           \<and> filter isCreateTunnel
                 (newEvents ((exSystem (Inr (exResponse ''REQUIRED'' 0 None)) (Some (exTunnel True)) False)
                    \<lparr>goroutines := [PollLoop 5000000000 (Waiting None)]\<rparr>) s') \<noteq> [])"
proof -
  let ?r = "exResponse ''REQUIRED'' 0 None"
  let ?s = "(exSystem (Inr ?r) (Some (exTunnel True)) False)
              \<lparr>goroutines := [PollLoop 5000000000 (Waiting None)]\<rparr>"
  let ?f = "fetched False ?s"
  have z: "lastActivity ?s = 0"
    by (simp add: exSystem_def)
  have h2: "GetEnvironmentStatus (portainerClient ?s) (world ?s) = (Inr ?r, False)"
    by (simp add: exSystem_def exClient_def)
  have t: "lastActivity (snd (pollTunnel exLibs 1000 ?r ?f)) = 1000
           \<and> fst (pollTunnel exLibs 1000 ?r ?f) = None"
    using pollTunnel_create_ok [of ?f "exTunnel True" ?r exLibs "''abc''" "''abc''" 1000]
    by (simp add: fetched_def emit_def exSystem_def exResponse_def exLibs_def exTunnel_def)
  have p: "lastActivity (snd (poll exLibs 1000 ?s)) = 1000"
    using poll_fetch_ok [OF h2, of exLibs 1000] t
    by (simp add: Let_def converge_lastActivity)
  have st: "step exLibs (Tick 0 1000) ?s =
              Done (setGoroutine 0 (PollLoop 5000000000 AtSelect) (pollLoopTick exLibs 1000 ?s))"
    by (simp add: step_def exSystem_def)
  show ?thesis
    using lastActivity_assignment [of 1000 ?s exLibs "''abc''" 9000 "Tick 0 1000"] st p z
    by (simp add: pollLoopTick_lastActivity_eq)
qed


text \<open>
  The claim as it was stated fails on the activity-reset hook: called while the tunnel is
  open, \<^verbatim>\<open>resetActivityTimer\<close> sets \<^verbatim>\<open>lastActivity\<close> with no tunnel creation, its
  only event being the query of the tunnel client.
\<close>

theorem lastActivity_assignment_counterexample:
  "lastActivity (exSystem (Inl (Error ''timeout'')) (Some (exTunnel True)) True) = 0
   \<and> step exLibs (CallResetActivityTimer 1000)
         (exSystem (Inl (Error ''timeout'')) (Some (exTunnel True)) True) =
       Done ((exSystem (Inl (Error ''timeout'')) (Some (exTunnel True)) True)
               \<lparr>trace := [CallIsTunnelOpen], lastActivity := 1000\<rparr>)"
  by (simp add: step_def resetActivityTimer_def emit_def exSystem_def exTunnel_def)

subsection \<open>Starting and stopping\<close>

text \<open>
  A start while the service is marked running, and a stop while it is not, return
  success and leave the system as it is.
\<close>

lemma start_running:
  "refreshSignal s \<noteq> None \<Longrightarrow> start s = Done (None, s)"
  by (auto simp: start_def split: option.split)

lemma stop_not_running:
  "refreshSignal s = None \<Longrightarrow> stop s = Done (None, s)"
  by (simp add: stop_def)

lemma five_seconds: "wrap64 (Duration_of_float64 5 * Second) = 5000000000"
  "wrap64 (Duration_of_float64 10 * Second) = 10000000000"
  by (simp_all add: wrap64_def Duration_of_float64_def Second_def)

lemmas lifedefs = step_def start_def stop_def restartStatusPollLoop_def startStatusPollLoop_def
  startActivityMonitoringLoop_def makeChan_def emit_def setGoroutine_def pollLoopTick_def
  pollLoopRefresh_def ready_def Let_def five_seconds


text \<open>
  C8 does not hold of the code: more than one status-poll loop can be active. The poll
  loop reads \<^verbatim>\<open>service.refreshSignal\<close> anew each time it enters its select. A loop
  that is running a poll while the service is stopped and started again comes back to
  its select after the old channel was closed and replaced; it then waits on the new
  channel, as the loop of the second start does, and both go on polling. The schedule:
  start, the loop enters its select, a tick (poll runs), stop, start, the first loop
  enters its select, the second loop enters its select.
\<close>

theorem start_stop_two_poll_loops:
  "run exLibs [CallStart, EnterSelect 0, Tick 0 1000, CallStop, CallStart, EnterSelect 0, EnterSelect 1]
     (exSystem (Inl (Error ''timeout'')) None False) =
   Done ((exSystem (Inl (Error ''timeout'')) None False)
     \<lparr>refreshSignal := Some 1,
       trace := [Log DEBUG ''starting Portainer short-polling client'' None,
                 CallGetEnvironmentStatus,
                 Log ERROR ''an error occured during short poll'' (Some (Error ''timeout'')),
                 Log DEBUG ''starting Portainer short-polling client'' None],
       closedChans := {0},
       nextChan := 2,
       goroutines := [PollLoop 5000000000 (Waiting (Some 1)), PollLoop 5000000000 (Waiting (Some 1))]\<rparr>)
   \<and> activePollLoops ((exSystem (Inl (Error ''timeout'')) None False)
     \<lparr>refreshSignal := Some 1,
       trace := [Log DEBUG ''starting Portainer short-polling client'' None,
                 CallGetEnvironmentStatus,
                 Log ERROR ''an error occured during short poll'' (Some (Error ''timeout'')),
                 Log DEBUG ''starting Portainer short-polling client'' None],
       closedChans := {0},
       nextChan := 2,
       goroutines := [PollLoop 5000000000 (Waiting (Some 1)), PollLoop 5000000000 (Waiting (Some 1))]\<rparr>) = 2"
  by (simp add: lifedefs poll_def exSystem_def exClient_def activePollLoops_def activePollLoop_def)



text \<open>
  The same happens on the service's own restart after a cadence change, when the restart
  goroutine runs before the polling loop is back at its select: the old loop, with its
  ticker of 5 seconds, and the new one, with 10 seconds, both wait on the new channel.
\<close>

lemma cadence_change_two_poll_loops:
  "run exLibs [CallStart, EnterSelect 0, Tick 0 1000, RunRestart 1, EnterSelect 0, EnterSelect 2]
     (exSystem (Inr (exResponse ''IDLE'' 10 None)) None False) =
   Done ((exSystem (Inr (exResponse ''IDLE'' 10 None)) None False)
     \<lparr>pollIntervalInSeconds := 10,
       refreshSignal := Some 1,
       trace := [Log DEBUG ''starting Portainer short-polling client'' None,
                 CallGetEnvironmentStatus,
                 Log DEBUG ''status'' None,
                 CallSchedule [],
                 CallHandleReceivedLogsRequests [],
                 Log DEBUG ''updating poll interval'' None,
                 CallSetTimeout 10000000000,
                 GoRestartStatusPollLoop,
                 Log DEBUG ''starting Portainer short-polling client'' None],
       closedChans := {0},
       nextChan := 2,
       goroutines := [PollLoop 5000000000 (Waiting (Some 1)), RestartCall True,
                      PollLoop 10000000000 (Waiting (Some 1))]\<rparr>)"
  by (simp add: lifedefs poll_def pollTunnel_def pollSchedules_def pollCadence_def pollStacks_def
        logsToCollect_def exSystem_def exClient_def exResponse_def)

subsection \<open>Closing an idle tunnel\<close>

lemma monitorTick_open:
  assumes tc: "tunnelClient s = Some tc"
    and la: "\<not> IsZero (lastActivity s)"
    and isOpen: "IsTunnelOpen tc (world s)"
  shows "monitorTick now s =
     (if Seconds (Since now (lastActivity s)) > Seconds (inactivityTimeout s) then
        (case fst (CloseTunnel tc (world s)) of
           Some err \<Rightarrow>
             s\<lparr>world := snd (CloseTunnel tc (world s)),
               trace := trace s @ [Log DEBUG ''tunnel activity monitoring'' None, CallIsTunnelOpen,
                 Log INFO ''shutting down tunnel after inactivity period'' None, CallCloseTunnel,
                 Log ERROR ''unable to shutdown tunnel'' (Some err)]\<rparr>
         | None \<Rightarrow>
             s\<lparr>world := snd (CloseTunnel tc (world s)),
               trace := trace s @ [Log DEBUG ''tunnel activity monitoring'' None, CallIsTunnelOpen,
                 Log INFO ''shutting down tunnel after inactivity period'' None, CallCloseTunnel]\<rparr>)
      else s\<lparr>trace := trace s @ [Log DEBUG ''tunnel activity monitoring'' None, CallIsTunnelOpen]\<rparr>)"
  using assms by (simp add: monitorTick_def emit_def Let_def split: option.split)

lemma Seconds_examples:
  "Seconds 29000000000 = 29" "Seconds 30000000000 = 30" "Seconds 31000000000 = 31"
  "Seconds 16777216000000000 = 16777216" "Seconds 16777216000000001 = 16777216"
  by code_simp+


text \<open>
  What a tick does when it finds \<^verbatim>\<open>lastActivity\<close> set, the tunnel client present
  and the tunnel open; the elapsed time is \<^verbatim>\<open>time.Since(lastActivity)\<close>. If the
  elapsed time is less than the inactivity timeout, or equal to it as float64 seconds,
  the tick only logs and queries the tunnel: no close is attempted and the outside
  state, the open tunnel with it, is as before. If the elapsed time is greater than the
  timeout and the two differ as float64 seconds, which is how the code compares them,
  the close operation is invoked, once. That is the case whenever the timeout is not
  negative and the elapsed time exceeds it by a second or more.
\<close>

lemma monitorTick_timeout:
  assumes tc: "tunnelClient s = Some tc"
    and la: "\<not> IsZero (lastActivity s)"
    and isOpen: "IsTunnelOpen tc (world s)"
  shows "(Since now (lastActivity s) < inactivityTimeout s \<longrightarrow>
            monitorTick now s =
              s\<lparr>trace := trace s @ [Log DEBUG ''tunnel activity monitoring'' None, CallIsTunnelOpen]\<rparr>)
         \<and> (inactivityTimeout s < Since now (lastActivity s)
              \<and> Seconds (Since now (lastActivity s)) \<noteq> Seconds (inactivityTimeout s) \<longrightarrow>
            filter isCloseTunnel (newEvents s (monitorTick now s)) = [CallCloseTunnel]
            \<and> world (monitorTick now s) = snd (CloseTunnel tc (world s)))
         \<and> (0 \<le> inactivityTimeout s
              \<and> inactivityTimeout s + Second \<le> Since now (lastActivity s) \<longrightarrow>
            filter isCloseTunnel (newEvents s (monitorTick now s)) = [CallCloseTunnel]
            \<and> world (monitorTick now s) = snd (CloseTunnel tc (world s)))
         \<and> (Seconds (Since now (lastActivity s)) = Seconds (inactivityTimeout s) \<longrightarrow>
            monitorTick now s =
              s\<lparr>trace := trace s @ [Log DEBUG ''tunnel activity monitoring'' None, CallIsTunnelOpen]\<rparr>)"
proof (intro conjI impI)
  assume "Since now (lastActivity s) < inactivityTimeout s"
  then have "Seconds (Since now (lastActivity s)) \<le> Seconds (inactivityTimeout s)"
    by (simp add: Seconds_mono)
  then show "monitorTick now s =
      s\<lparr>trace := trace s @ [Log DEBUG ''tunnel activity monitoring'' None, CallIsTunnelOpen]\<rparr>"
    using monitorTick_open [OF tc la isOpen, of now] by simp
next
  assume a: "inactivityTimeout s < Since now (lastActivity s)
      \<and> Seconds (Since now (lastActivity s)) \<noteq> Seconds (inactivityTimeout s)"
  then have "Seconds (inactivityTimeout s) \<le> Seconds (Since now (lastActivity s))"
    by (simp add: Seconds_mono)
  with a have gt: "Seconds (Since now (lastActivity s)) > Seconds (inactivityTimeout s)"
    by simp
  show "filter isCloseTunnel (newEvents s (monitorTick now s)) = [CallCloseTunnel]"
    using monitorTick_open [OF tc la isOpen, of now] gt
    by (simp add: newEvents_def isCloseTunnel_def split: option.split)
  show "world (monitorTick now s) = snd (CloseTunnel tc (world s))"
    using monitorTick_open [OF tc la isOpen, of now] gt
    by (simp split: option.split)
next
  assume a: "0 \<le> inactivityTimeout s
      \<and> inactivityTimeout s + Second \<le> Since now (lastActivity s)"
  have "Since now (lastActivity s) < 2 ^ 63"
    by (simp add: Since_def)
  with a have gt: "Seconds (Since now (lastActivity s)) > Seconds (inactivityTimeout s)"
    by (simp add: Seconds_strict)
  show "filter isCloseTunnel (newEvents s (monitorTick now s)) = [CallCloseTunnel]"
    using monitorTick_open [OF tc la isOpen, of now] gt
    by (simp add: newEvents_def isCloseTunnel_def split: option.split)
  show "world (monitorTick now s) = snd (CloseTunnel tc (world s))"
    using monitorTick_open [OF tc la isOpen, of now] gt
    by (simp split: option.split)
next
  assume "Seconds (Since now (lastActivity s)) = Seconds (inactivityTimeout s)"
  then show "monitorTick now s =
      s\<lparr>trace := trace s @ [Log DEBUG ''tunnel activity monitoring'' None, CallIsTunnelOpen]\<rparr>"
    using monitorTick_open [OF tc la isOpen, of now] by simp
qed

lemma monitorTick_timeout_example:
  "monitorTick 29000001000
     ((exSystem (Inl (Error ''timeout'')) (Some (exTunnel True)) True)\<lparr>lastActivity := 1000\<rparr>) =
     (exSystem (Inl (Error ''timeout'')) (Some (exTunnel True)) True)
       \<lparr>lastActivity := 1000,
         trace := [Log DEBUG ''tunnel activity monitoring'' None, CallIsTunnelOpen]\<rparr>
   \<and> filter isCloseTunnel
        (newEvents ((exSystem (Inl (Error ''timeout'')) (Some (exTunnel True)) True)\<lparr>lastActivity := 1000\<rparr>)
          (monitorTick 31000001000
            ((exSystem (Inl (Error ''timeout'')) (Some (exTunnel True)) True)\<lparr>lastActivity := 1000\<rparr>)))
       = [CallCloseTunnel]
   \<and> \<not> world (monitorTick 31000001000
            ((exSystem (Inl (Error ''timeout'')) (Some (exTunnel True)) True)\<lparr>lastActivity := 1000\<rparr>))"
proof -
  let ?s = "(exSystem (Inl (Error ''timeout'')) (Some (exTunnel True)) True)\<lparr>lastActivity := 1000\<rparr>"
  have h1: "tunnelClient ?s = Some (exTunnel True)"
    by (simp add: exSystem_def)
  have h2: "\<not> IsZero (lastActivity ?s)"
    by (simp add: IsZero_def)
  have h3: "IsTunnelOpen (exTunnel True) (world ?s)"
    by (simp add: exSystem_def exTunnel_def)
  have e: "Since 29000001000 1000 = 29000000000" "Since 31000001000 1000 = 31000000000"
    "inactivityTimeout (exSystem (Inl (Error ''timeout'')) (Some (exTunnel True)) True) = 30000000000"
    by (simp_all add: Since_def exSystem_def)
  have a: "monitorTick 29000001000 ?s =
      ?s\<lparr>trace := trace ?s @ [Log DEBUG ''tunnel activity monitoring'' None, CallIsTunnelOpen]\<rparr>"
    using monitorTick_timeout [OF h1 h2 h3, of 29000001000]
    by (simp add: e)
  have b: "filter isCloseTunnel (newEvents ?s (monitorTick 31000001000 ?s)) = [CallCloseTunnel]
      \<and> world (monitorTick 31000001000 ?s) = snd (CloseTunnel (exTunnel True) (world ?s))"
    using monitorTick_timeout [OF h1 h2 h3, of 31000001000]
    by (simp add: e Seconds_examples)
  show ?thesis
    using a b by (simp add: exSystem_def exTunnel_def)
qed


text \<open>
  C6 does not hold of the code. The loop is to close the tunnel once the time since the
  last activity exceeds the inactivity duration, and line 174 compares the two
  durations after \<^verbatim>\<open>Duration.Seconds\<close> has rounded each to a float64. With a timeout
  of \<open>2 ^ 24\<close> seconds and the tunnel open, a tick one nanosecond after the timeout
  has elapsed finds both sides equal to 16777216 and leaves the tunnel open: it only
  logs and queries the tunnel, and no close is attempted.
\<close>

theorem monitor_rounding_misses_timeout:
  "inactivityTimeout ((exSystem (Inl (Error ''timeout'')) (Some (exTunnel True)) True)
       \<lparr>inactivityTimeout := 16777216000000000, lastActivity := 1000\<rparr>)
     < Since 16777216000001001
         (lastActivity ((exSystem (Inl (Error ''timeout'')) (Some (exTunnel True)) True)
            \<lparr>inactivityTimeout := 16777216000000000, lastActivity := 1000\<rparr>))
   \<and> monitorTick 16777216000001001
        ((exSystem (Inl (Error ''timeout'')) (Some (exTunnel True)) True)
           \<lparr>inactivityTimeout := 16777216000000000, lastActivity := 1000\<rparr>) =
       (exSystem (Inl (Error ''timeout'')) (Some (exTunnel True)) True)
         \<lparr>inactivityTimeout := 16777216000000000, lastActivity := 1000,
           trace := [Log DEBUG ''tunnel activity monitoring'' None, CallIsTunnelOpen]\<rparr>"
proof -
  let ?s = "(exSystem (Inl (Error ''timeout'')) (Some (exTunnel True)) True)
              \<lparr>inactivityTimeout := 16777216000000000, lastActivity := 1000\<rparr>"
  have h1: "tunnelClient ?s = Some (exTunnel True)"
    by (simp add: exSystem_def)
  have h2: "\<not> IsZero (lastActivity ?s)"
    by (simp add: IsZero_def)
  have h3: "IsTunnelOpen (exTunnel True) (world ?s)"
    by (simp add: exSystem_def exTunnel_def)
  have e: "Since 16777216000001001 1000 = 16777216000000001"
    by (simp add: Since_def)
  have t: "trace (exSystem (Inl (Error ''timeout'')) (Some (exTunnel True)) True) = []"
    by (simp add: exSystem_def)
  show ?thesis
    using monitorTick_open [OF h1 h2 h3, of 16777216000001001]
    by (simp add: e t Seconds_examples)
qed

end
